theory Spec2Isabelle
  imports Complex_Main "HOL-Library.AList" "HOL-Library.Multiset"
begin

section \<open>nsqtop: aggregation, rates, ranking, history and sparkline\<close>

text \<open>
  A shallow embedding of \<^verbatim>\<open>src/nsq_top.py\<close>. Python dictionaries keep their
  insertion order, and the ranking depends on it, so a dictionary is an association list
  with distinct keys, read with \<open>map_of\<close>. Python integers are unbounded: \<open>int\<close>.
  Python floats are idealised as rationals: the quotients and products of the source are
  exact here, rounding is outside the model. Exceptions the source does not catch are
  values of \<open>py_error\<close>.
\<close>

datatype py_error = ZeroDivisionError | IndexError | ValueError

subsection \<open>The documents received from the brokers\<close>

text \<open>
  One channel of a broker's \<^verbatim>\<open>/stats\<close> document. The source reads
  \<^verbatim>\<open>channel['depth']\<close>, \<^verbatim>\<open>channel['backend_depth']\<close> and
  \<^verbatim>\<open>channel['in_flight_count']\<close> directly and
  \<^verbatim>\<open>channel.get('message_count', 0)\<close> with a default, so only the last is optional.
\<close>

record channel_doc =
  channel_name :: string
  depth :: int
  backend_depth :: int
  in_flight_count :: int
  message_count :: "int option"

text \<open>\<^verbatim>\<open>topic.get('channels', [])\<close>: an absent list is the empty list.\<close>

record topic_doc =
  topic_name :: string
  channels :: "channel_doc list"

text \<open>\<^verbatim>\<open>stats.get('topics', [])\<close>: an absent list is the empty list.\<close>

record stats_doc =
  topics :: "topic_doc list"

subsection \<open>The aggregated entry\<close>

text \<open>
  The dictionary built at lines 83-89, with the two rate keys that lines 98-110 add
  (\<open>None\<close> while the key is not set).
\<close>

record agg_channel =
  topic :: string
  channel :: string
  agg_depth :: int
  agg_in_flight_count :: int
  agg_message_count :: int
  rate_per_second :: "rat option"
  rate_per_minute :: "rat option"

type_synonym channel_dict = "(string \<times> agg_channel) list"

definition channel_key :: "string \<Rightarrow> string \<Rightarrow> string" where
  "channel_key t c = t @ ''/'' @ c"

definition get_message_count :: "channel_doc \<Rightarrow> int" where
  "get_message_count ch = (case message_count ch of None \<Rightarrow> 0 | Some n \<Rightarrow> n)"

text \<open>Lines 83-89: the entry created when the key is seen for the first time.\<close>

definition new_entry :: "string \<Rightarrow> channel_doc \<Rightarrow> agg_channel" where
  "new_entry tname ch =
     \<lparr>topic = tname, channel = channel_name ch, agg_depth = 0, agg_in_flight_count = 0,
      agg_message_count = get_message_count ch,
      rate_per_second = None, rate_per_minute = None\<rparr>"

text \<open>Lines 92-94: the three \<^verbatim>\<open>+=\<close> on the entry of the key.\<close>

definition accumulate :: "channel_doc \<Rightarrow> agg_channel \<Rightarrow> agg_channel" where
  "accumulate ch e =
     e\<lparr>agg_depth := agg_depth e + (depth ch + backend_depth ch),
       agg_in_flight_count := agg_in_flight_count e + in_flight_count ch,
       agg_message_count := agg_message_count e + get_message_count ch\<rparr>"

text \<open>Lines 81-95: the body of the innermost loop, on the pair
  \<open>(channel_data, total_in_flight)\<close>.\<close>

definition add_channel :: "string \<Rightarrow> channel_doc \<Rightarrow> channel_dict \<times> int \<Rightarrow> channel_dict \<times> int" where
  "add_channel tname ch st =
     (let channel_data = fst st; total_in_flight = snd st;
          key = channel_key tname (channel_name ch);
          channel_data1 = (if map_of channel_data key = None
                           then channel_data @ [(key, new_entry tname ch)]
                           else channel_data)
      in (AList.map_entry key (accumulate ch) channel_data1,
          total_in_flight + in_flight_count ch))"

definition add_topic :: "topic_doc \<Rightarrow> channel_dict \<times> int \<Rightarrow> channel_dict \<times> int" where
  "add_topic t st = foldl (\<lambda>s ch. add_channel (topic_name t) ch s) st (channels t)"

definition add_stats :: "stats_doc \<Rightarrow> channel_dict \<times> int \<Rightarrow> channel_dict \<times> int" where
  "add_stats d st = foldl (\<lambda>s t. add_topic t s) st (topics d)"

text \<open>Lines 75-95: the three nested loops, from the empty dictionary and total 0.\<close>

definition aggregate :: "stats_doc list \<Rightarrow> channel_dict \<times> int" where
  "aggregate nsqd_stats = foldl (\<lambda>s d. add_stats d s) ([], 0) nsqd_stats"

subsection \<open>The rate engine (lines 97-110)\<close>

text \<open>
  Line 101-106 for one key. \<^verbatim>\<open>previous_stats.get(channel_key, {})\<close> is the
  previous entry or an empty dictionary, whose \<^verbatim>\<open>message_count\<close> then defaults to
  \<open>current_count\<close>. The division of line 103 raises when \<open>interval_seconds\<close> is 0.
\<close>

definition py_truediv :: "int \<Rightarrow> int \<Rightarrow> py_error + rat" where
  "py_truediv a b = (if b = 0 then Inl ZeroDivisionError else Inr (of_int a / of_int b))"

definition rate_for :: "channel_dict \<Rightarrow> int \<Rightarrow> string \<Rightarrow> agg_channel \<Rightarrow> py_error + agg_channel" where
  "rate_for previous_stats interval_seconds key e =
     (let current_count = agg_message_count e;
          previous_count = (case map_of previous_stats key of
                              None \<Rightarrow> current_count
                            | Some p \<Rightarrow> agg_message_count p)
      in case py_truediv (max 0 (current_count - previous_count)) interval_seconds of
           Inl err \<Rightarrow> Inl err
         | Inr messages_per_second \<Rightarrow>
             Inr (e\<lparr>rate_per_second := Some messages_per_second,
                    rate_per_minute := Some (messages_per_second * 60)\<rparr>))"

text \<open>The loop of lines 99-106 over the keys; the first exception ends it.\<close>

fun annotate_rates :: "channel_dict \<Rightarrow> int \<Rightarrow> channel_dict \<Rightarrow> py_error + channel_dict" where
  "annotate_rates previous_stats interval_seconds [] = Inr []"
| "annotate_rates previous_stats interval_seconds ((key, e) # rest) =
     (case rate_for previous_stats interval_seconds key e of
        Inl err \<Rightarrow> Inl err
      | Inr e' \<Rightarrow>
          (case annotate_rates previous_stats interval_seconds rest of
             Inl err \<Rightarrow> Inl err
           | Inr rest' \<Rightarrow> Inr ((key, e') # rest')))"

text \<open>Lines 108-110: both rates are set to 0.\<close>

definition zero_rates :: "channel_dict \<Rightarrow> channel_dict" where
  "zero_rates channel_data =
     map (\<lambda>(key, e). (key, e\<lparr>rate_per_second := Some 0, rate_per_minute := Some 0\<rparr>)) channel_data"

text \<open>
  Line 98, \<^verbatim>\<open>if previous_stats:\<close>, is Python truthiness: \<open>None\<close> and the empty
  dictionary both take the \<^verbatim>\<open>else\<close> branch.
\<close>

definition rate_engine :: "channel_dict \<Rightarrow> channel_dict option \<Rightarrow> int \<Rightarrow> py_error + channel_dict" where
  "rate_engine channel_data previous_stats interval_seconds =
     (case previous_stats of
        None \<Rightarrow> Inr (zero_rates channel_data)
      | Some previous \<Rightarrow>
          (if previous = [] then Inr (zero_rates channel_data)
           else annotate_rates previous interval_seconds channel_data))"

subsection \<open>Ranking (line 113) and \<open>process_stats\<close>\<close>

text \<open>
  \<^verbatim>\<open>sorted(values, key=lambda x: x['depth'], reverse=True)\<close>: Python's sort is stable,
  also with \<^verbatim>\<open>reverse=True\<close>, where elements of equal key keep their original order.
  That is the stable insertion sort of the library on the negated key.
\<close>

definition rank_channels :: "agg_channel list \<Rightarrow> agg_channel list" where
  "rank_channels vs = sort_key (\<lambda>x. - agg_depth x) vs"

definition process_stats ::
  "stats_doc list \<Rightarrow> channel_dict option \<Rightarrow> int \<Rightarrow> py_error + (agg_channel list \<times> int)" where
  "process_stats nsqd_stats previous_stats interval_seconds =
     (let st = aggregate nsqd_stats; channel_data = fst st; total_in_flight = snd st
      in case rate_engine channel_data previous_stats interval_seconds of
           Inl err \<Rightarrow> Inl err
         | Inr channel_data' \<Rightarrow> Inr (rank_channels (map snd channel_data'), total_in_flight))"

subsection \<open>Endpoint resolution: \<open>get_nsqd_nodes\<close> (lines 20-50)\<close>

text \<open>
  A producer as the directory service lists it; the source reads
  \<open>broadcast_address\<close> and \<open>http_port\<close> only.
\<close>

record producer =
  broadcast_address :: string
  http_port :: int

text \<open>
  What one request to \<^verbatim>\<open><lookupd_url>/nodes\<close> did: it raised a
  \<^verbatim>\<open>RequestException\<close> with a message, the body was not JSON
  (\<^verbatim>\<open>ValueError\<close>), or it gave a producer list
  (\<^verbatim>\<open>.get('producers', [])\<close>, so an absent list is empty).
\<close>

datatype lookup_response =
    RequestException string
  | InvalidJSON
  | Producers "producer list"

text \<open>Lines 27-36: one iteration, on the pair \<open>(all_producers, errors)\<close>.\<close>

definition query_lookupd ::
  "string \<times> lookup_response \<Rightarrow> producer list \<times> string list \<Rightarrow> producer list \<times> string list" where
  "query_lookupd ur st =
     (let lookupd_url = fst ur; all_producers = fst st; errors = snd st
      in case snd ur of
           Producers producers \<Rightarrow> (all_producers @ producers, errors)
         | RequestException e \<Rightarrow>
             (all_producers, errors @ [''Failed to connect to '' @ lookupd_url @ '': '' @ e])
         | InvalidJSON \<Rightarrow>
             (all_producers, errors @ [''Invalid JSON response from '' @ lookupd_url]))"

text \<open>\<^verbatim>\<open>sep.join(xs)\<close>.\<close>

fun join :: "string \<Rightarrow> string list \<Rightarrow> string" where
  "join sep [] = []"
| "join sep [x] = x"
| "join sep (x # y # ys) = x @ sep @ join sep (y # ys)"

text \<open>Lines 42-48: the loop that keeps the first producer of every key.\<close>

fun dedup_producers :: "producer list \<Rightarrow> (string \<times> int) set \<Rightarrow> producer list \<Rightarrow> producer list" where
  "dedup_producers [] seen unique_producers = unique_producers"
| "dedup_producers (p # ps) seen unique_producers =
     (let key = (broadcast_address p, http_port p)
      in if key \<notin> seen then dedup_producers ps (insert key seen) (unique_producers @ [p])
         else dedup_producers ps seen unique_producers)"

text \<open>
  The argument pairs every address with what its request did. The result is \<open>Inl\<close> of the
  diagnostic for the dictionary \<^verbatim>\<open>{'error': ...}\<close> of line 39, \<open>Inr\<close> of the list
  of producers otherwise.
\<close>

definition get_nsqd_nodes :: "(string \<times> lookup_response) list \<Rightarrow> string + producer list" where
  "get_nsqd_nodes lookupd_urls =
     (let st = foldl (\<lambda>s ur. query_lookupd ur s) ([], []) lookupd_urls;
          all_producers = fst st; errors = snd st
      in if all_producers = [] \<and> errors \<noteq> [] then Inl (join ''; '' errors)
         else Inr (dedup_producers all_producers {} []))"

subsection \<open>Fetching the statistics: \<open>get_all_stats\<close> (lines 52-69)\<close>

text \<open>
  What one request to a broker did: it failed (and the broker is skipped), or it gave a
  document, flat or nested under \<^verbatim>\<open>data\<close>; \<^verbatim>\<open>stats.get('data', stats)\<close> reads both.
\<close>

datatype stats_response = Unreachable | Flat stats_doc | Nested stats_doc

fun get_all_stats :: "(string \<Rightarrow> int \<Rightarrow> stats_response) \<Rightarrow> producer list \<Rightarrow> stats_doc list" where
  "get_all_stats fetch [] = []"
| "get_all_stats fetch (p # nodes) =
     (case fetch (broadcast_address p) (http_port p) of
        Unreachable \<Rightarrow> get_all_stats fetch nodes
      | Flat d \<Rightarrow> d # get_all_stats fetch nodes
      | Nested d \<Rightarrow> d # get_all_stats fetch nodes)"

subsection \<open>The sparkline: \<open>get_sparkline\<close> (lines 116-126)\<close>

text \<open>
  A Python string is a sequence of code points, and the glyphs are not ASCII, so a glyph is
  its code point: a blank, then U+2582 to U+2588.
\<close>

type_synonym glyph = nat

definition SPARKLINE_CHARS :: "glyph list" where
  "SPARKLINE_CHARS = [0x20, 0x2582, 0x2583, 0x2584, 0x2585, 0x2586, 0x2587, 0x2588]"

definition SPARKLINE_LENGTH :: nat where
  "SPARKLINE_LENGTH = 60"

text \<open>\<^verbatim>\<open>max(xs)\<close> on a list the caller has checked not to be empty.\<close>

fun py_max :: "int list \<Rightarrow> int" where
  "py_max [] = 0"
| "py_max [x] = x"
| "py_max (x # y # ys) = max x (py_max (y # ys))"

text \<open>\<^verbatim>\<open>int(q)\<close> truncates towards zero.\<close>

definition py_int :: "rat \<Rightarrow> int" where
  "py_int q = (if 0 \<le> q then \<lfloor>q\<rfloor> else \<lceil>q\<rceil>)"

text \<open>\<^verbatim>\<open>xs[i]\<close>: a negative index counts from the end, an index out of range raises.\<close>

definition py_index :: "'a list \<Rightarrow> int \<Rightarrow> py_error + 'a" where
  "py_index xs i =
     (if 0 \<le> i \<and> i < int (length xs) then Inr (xs ! nat i)
      else if i < 0 \<and> - int (length xs) \<le> i then Inr (xs ! nat (int (length xs) + i))
      else Inl IndexError)"

text \<open>A comprehension whose element expression may raise: the first exception ends it.\<close>

fun map_raise :: "('a \<Rightarrow> py_error + 'b) \<Rightarrow> 'a list \<Rightarrow> py_error + 'b list" where
  "map_raise f [] = Inr []"
| "map_raise f (x # xs) =
     (case f x of
        Inl err \<Rightarrow> Inl err
      | Inr y \<Rightarrow> (case map_raise f xs of Inl err \<Rightarrow> Inl err | Inr ys \<Rightarrow> Inr (y # ys)))"

text \<open>Line 125 for one value.\<close>

definition scale_value :: "int \<Rightarrow> int \<Rightarrow> py_error + int" where
  "scale_value max_val v =
     (case py_truediv v max_val of
        Inl err \<Rightarrow> Inl err
      | Inr q \<Rightarrow> Inr (py_int (q * of_int (int (length SPARKLINE_CHARS) - 1))))"

definition get_sparkline :: "int list \<Rightarrow> py_error + glyph list" where
  "get_sparkline history =
     (if history = [] then Inr []
      else
        let max_val = (if py_max history > 0 then py_max history else 1)
        in case map_raise (scale_value max_val) history of
             Inl err \<Rightarrow> Inl err
           | Inr scaled_data \<Rightarrow> map_raise (py_index SPARKLINE_CHARS) scaled_data)"

subsection \<open>The polling loop of \<open>main\<close> (lines 281-311)\<close>

text \<open>Lines 305-307: append, then drop the oldest entry when the window is exceeded.\<close>

definition update_history :: "int list \<Rightarrow> int \<Rightarrow> int list" where
  "update_history history sample =
     (let h = history @ [sample]
      in if length h > SPARKLINE_LENGTH then tl h else h)"

text \<open>
  The variables of the loop: the two that live across cycles, and the three that every
  cycle sets anew and hands to \<^verbatim>\<open>draw_ui\<close>.
\<close>

record main_state =
  inflight_history :: "int list"
  previous_channel_stats :: "channel_dict option"
  error_message :: "string option"
  shown_channels :: "agg_channel list"
  total_in_flight :: int

definition initial_state :: main_state where
  "initial_state =
     \<lparr>inflight_history = [], previous_channel_stats = None, error_message = None,
      shown_channels = [], total_in_flight = 0\<rparr>"

text \<open>What the network does during one cycle.\<close>

record cycle_input =
  lookupd_responses :: "(string \<times> lookup_response) list"
  nsqd_responses :: "string \<Rightarrow> int \<Rightarrow> stats_response"

text \<open>Line 302: the dictionary comprehension; a later equal key overwrites the value.\<close>

definition index_channels :: "agg_channel list \<Rightarrow> channel_dict" where
  "index_channels chs =
     foldl (\<lambda>d ch. AList.update (channel_key (topic ch) (channel ch)) ch d) [] chs"

text \<open>
  One iteration of the \<^verbatim>\<open>while True\<close> loop. An exception of \<open>process_stats\<close> is not
  caught and ends the program, and so does \<^verbatim>\<open>time.sleep\<close> of a negative interval.
\<close>

definition cycle :: "int \<Rightarrow> cycle_input \<Rightarrow> main_state \<Rightarrow> py_error + main_state" where
  "cycle interval inp s =
     (let r = (case get_nsqd_nodes (lookupd_responses inp) of
                 Inl err \<Rightarrow> Inr (Some err, [], 0, previous_channel_stats s)
               | Inr nodes \<Rightarrow>
                   (case process_stats (get_all_stats (nsqd_responses inp) nodes)
                           (previous_channel_stats s) interval of
                      Inl ex \<Rightarrow> Inl ex
                    | Inr (chs, tif) \<Rightarrow> Inr (None, chs, tif, Some (index_channels chs))))
      in case r of
           Inl ex \<Rightarrow> Inl ex
         | Inr (err, chs, tif, prev) \<Rightarrow>
             if interval < 0 then Inl ValueError
             else Inr \<lparr>inflight_history = update_history (inflight_history s) tif,
                       previous_channel_stats = prev, error_message = err,
                       shown_channels = chs, total_in_flight = tif\<rparr>)"

text \<open>The loop over the cycles that the inputs describe.\<close>

fun run :: "int \<Rightarrow> cycle_input list \<Rightarrow> main_state \<Rightarrow> py_error + main_state" where
  "run interval [] s = Inr s"
| "run interval (inp # inps) s =
     (case cycle interval inp s of Inl ex \<Rightarrow> Inl ex | Inr s' \<Rightarrow> run interval inps s')"

subsection \<open>Notions the properties are stated with\<close>

text \<open>
  Every (topic name, channel) pair of the documents, in the order in which the three
  nested loops of \<open>process_stats\<close> visit them: one per broker, topic and channel.
\<close>

definition contributions :: "stats_doc list \<Rightarrow> (string \<times> channel_doc) list" where
  "contributions nsqd_stats =
     concat (map (\<lambda>d. concat (map (\<lambda>t. map (\<lambda>ch. (topic_name t, ch)) (channels t)) (topics d)))
       nsqd_stats)"

text \<open>The key of a contribution, and the loop body applied to a contribution.\<close>

definition contribution_key :: "string \<times> channel_doc \<Rightarrow> string" where
  "contribution_key tc = channel_key (fst tc) (channel_name (snd tc))"

definition add_contribution :: "channel_dict \<times> int \<Rightarrow> string \<times> channel_doc \<Rightarrow> channel_dict \<times> int" where
  "add_contribution s tc = add_channel (fst tc) (snd tc) s"

text \<open>The contributions to one channel key: what the brokers hosting it report.\<close>

definition hosted :: "string \<Rightarrow> stats_doc list \<Rightarrow> channel_doc list" where
  "hosted k nsqd_stats =
     map snd (filter (\<lambda>tc. contribution_key tc = k) (contributions nsqd_stats))"

text \<open>The \<^verbatim>\<open>+=\<close> of lines 92-94 for a sequence of contributions to one entry.\<close>

definition accumulate_all :: "agg_channel \<Rightarrow> channel_doc list \<Rightarrow> agg_channel" where
  "accumulate_all e chs = foldl (\<lambda>a ch. accumulate ch a) e chs"

text \<open>
  The rate per second in the words of the specification: zero without a previous mapping,
  zero for a key that the previous mapping does not have, and otherwise the difference
  of the message counts, clamped at zero, over the elapsed seconds.
\<close>

definition spec_rate_per_second :: "channel_dict option \<Rightarrow> int \<Rightarrow> string \<Rightarrow> agg_channel \<Rightarrow> rat" where
  "spec_rate_per_second previous elapsed k e =
     (case previous of
        None \<Rightarrow> 0
      | Some prev \<Rightarrow>
          (case map_of prev k of
             None \<Rightarrow> 0
           | Some p \<Rightarrow> of_int (max 0 (agg_message_count e - agg_message_count p)) / of_int elapsed))"

text \<open>Whether the request to an address failed, the producers it gave, and its error text.\<close>

definition address_failed :: "lookup_response \<Rightarrow> bool" where
  "address_failed r = (case r of Producers ps \<Rightarrow> False | RequestException e \<Rightarrow> True | InvalidJSON \<Rightarrow> True)"

definition producers_of :: "lookup_response \<Rightarrow> producer list" where
  "producers_of r = (case r of Producers ps \<Rightarrow> ps | RequestException e \<Rightarrow> [] | InvalidJSON \<Rightarrow> [])"

definition error_text :: "string \<times> lookup_response \<Rightarrow> string" where
  "error_text ur =
     (case snd ur of
        RequestException e \<Rightarrow> ''Failed to connect to '' @ fst ur @ '': '' @ e
      | InvalidJSON \<Rightarrow> ''Invalid JSON response from '' @ fst ur
      | Producers ps \<Rightarrow> [])"

text \<open>The identity of an endpoint, on which line 45 removes the duplicates.\<close>

definition endpoint_key :: "producer \<Rightarrow> string \<times> int" where
  "endpoint_key p = (broadcast_address p, http_port p)"

section \<open>Aggregation\<close>

lemma foldl_concat_nested: "foldl f s (concat xss) = foldl (\<lambda>a xs. foldl f a xs) s xss"
  by (induction xss arbitrary: s) auto

lemma aggregate_contributions:
  "aggregate docs = foldl add_contribution ([], 0) (contributions docs)"
proof -
  have t: "add_topic t st = foldl add_contribution st (map (\<lambda>ch. (topic_name t, ch)) (channels t))"
    for t st
    by (simp add: add_topic_def foldl_map add_contribution_def)
  have d: "add_stats d st = foldl add_contribution st
             (concat (map (\<lambda>t. map (\<lambda>ch. (topic_name t, ch)) (channels t)) (topics d)))"
    for d st
    by (simp add: add_stats_def foldl_concat_nested foldl_map t)
  show ?thesis
    by (simp add: aggregate_def contributions_def foldl_concat_nested foldl_map d)
qed

lemma map_of_add_contribution:
  "map_of (fst (add_contribution s tc)) k =
     (if k = contribution_key tc
      then Some (accumulate (snd tc)
                  (case map_of (fst s) k of None \<Rightarrow> new_entry (fst tc) (snd tc) | Some e \<Rightarrow> e))
      else map_of (fst s) k)"
  by (auto simp: add_contribution_def add_channel_def Let_def contribution_key_def
      AList.map_of_map_entry map_add_def split: option.splits)

lemma accumulate_all_Cons [simp]:
  "accumulate_all e (ch # chs) = accumulate_all (accumulate ch e) chs"
  by (simp add: accumulate_all_def)

lemma accumulate_all_Nil [simp]: "accumulate_all e [] = e"
  by (simp add: accumulate_all_def)

lemma map_of_fold_contributions:
  "map_of (fst (foldl add_contribution s cs)) k =
     (case map_of (fst s) k of
        Some e \<Rightarrow> Some (accumulate_all e (map snd (filter (\<lambda>tc. contribution_key tc = k) cs)))
      | None \<Rightarrow>
          (case filter (\<lambda>tc. contribution_key tc = k) cs of
             [] \<Rightarrow> None
           | tc # rest \<Rightarrow> Some (accumulate_all (new_entry (fst tc) (snd tc)) (map snd (tc # rest)))))"
proof (induction cs arbitrary: s)
  case Nil
  show ?case by (simp split: option.splits)
next
  case (Cons c cs)
  show ?case
    by (simp add: Cons.IH map_of_add_contribution split: option.splits)
qed

lemma accumulate_all_fields:
  "agg_depth (accumulate_all e chs) = agg_depth e + (\<Sum>ch\<leftarrow>chs. depth ch + backend_depth ch)"
  "agg_in_flight_count (accumulate_all e chs) = agg_in_flight_count e + (\<Sum>ch\<leftarrow>chs. in_flight_count ch)"
  "agg_message_count (accumulate_all e chs) = agg_message_count e + (\<Sum>ch\<leftarrow>chs. get_message_count ch)"
  "topic (accumulate_all e chs) = topic e"
  "channel (accumulate_all e chs) = channel e"
  by (induction chs arbitrary: e; simp add: accumulate_def)+

lemma distinct_add_contribution:
  "distinct (map fst (fst s)) \<Longrightarrow> distinct (map fst (fst (add_contribution s tc)))"
  by (auto simp: add_contribution_def add_channel_def Let_def map_of_eq_None_iff
      intro!: AList.distinct_map_entry)

lemma distinct_fold_contributions:
  "distinct (map fst (fst s)) \<Longrightarrow> distinct (map fst (fst (foldl add_contribution s cs)))"
  by (induction cs arbitrary: s) (auto simp: distinct_add_contribution)

lemma snd_add_contribution:
  "snd (add_contribution s tc) = snd s + in_flight_count (snd tc)"
  by (simp add: add_contribution_def add_channel_def Let_def)

lemma snd_fold_contributions:
  "snd (foldl add_contribution s cs) = snd s + (\<Sum>tc\<leftarrow>cs. in_flight_count (snd tc))"
  by (induction cs arbitrary: s) (auto simp: snd_add_contribution)

lemma aggregate_distinct: "distinct (map fst (fst (aggregate docs)))"
  by (simp add: aggregate_contributions distinct_fold_contributions)

lemma aggregate_total:
  "snd (aggregate docs) = (\<Sum>tc\<leftarrow>contributions docs. in_flight_count (snd tc))"
  by (simp add: aggregate_contributions snd_fold_contributions)

lemma aggregate_lookup:
  "map_of (fst (aggregate docs)) k =
     (case filter (\<lambda>tc. contribution_key tc = k) (contributions docs) of
        [] \<Rightarrow> None
      | tc # rest \<Rightarrow> Some (accumulate_all (new_entry (fst tc) (snd tc)) (hosted k docs)))"
  by (simp add: aggregate_contributions map_of_fold_contributions hosted_def split: list.splits)

section \<open>The history window\<close>

lemma update_history_length:
  "length h \<le> SPARKLINE_LENGTH \<Longrightarrow> length (update_history h x) \<le> SPARKLINE_LENGTH"
  by (simp add: update_history_def Let_def)

lemma update_history_drop:
  "update_history h x = drop (length (h @ [x]) - SPARKLINE_LENGTH) (h @ [x])"
  if "length h \<le> SPARKLINE_LENGTH"
proof (cases "length h = SPARKLINE_LENGTH")
  case True
  then obtain a list where h: "h = a # list"
    by (cases h) (auto simp: SPARKLINE_LENGTH_def)
  have "length (h @ [x]) - SPARKLINE_LENGTH = Suc 0"
    using True by simp
  then show ?thesis
    using True h by (simp add: update_history_def Let_def)
next
  case False
  with that have "length (h @ [x]) \<le> SPARKLINE_LENGTH" by simp
  then show ?thesis
    by (simp add: update_history_def Let_def)
qed

lemma foldl_update_history:
  "foldl update_history [] xs = drop (length xs - SPARKLINE_LENGTH) xs"
proof (induction xs rule: rev_induct)
  case Nil
  show ?case by simp
next
  case (snoc x xs)
  let ?h = "drop (length xs - SPARKLINE_LENGTH) xs"
  have len: "length ?h \<le> SPARKLINE_LENGTH" by simp
  have "foldl update_history [] (xs @ [x]) = update_history ?h x"
    using snoc.IH by simp
  also have "\<dots> = drop (length (?h @ [x]) - SPARKLINE_LENGTH) (?h @ [x])"
    by (rule update_history_drop [OF len])
  also have "\<dots> = drop (length (xs @ [x]) - SPARKLINE_LENGTH) (xs @ [x])"
  proof (cases "length xs \<le> SPARKLINE_LENGTH")
    case True
    then show ?thesis by simp
  next
    case False
    then have "Suc (length xs - SPARKLINE_LENGTH) = Suc (length xs) - SPARKLINE_LENGTH"
      by arith
    with False show ?thesis by simp
  qed
  finally show ?case .
qed

lemma cycle_history:
  "cycle i inp s = Inr s' \<Longrightarrow>
     inflight_history s' = update_history (inflight_history s) (total_in_flight s')"
  by (auto simp: cycle_def Let_def split: sum.splits if_splits prod.splits)

lemma run_history_bound:
  "run i inps s = Inr s' \<Longrightarrow> length (inflight_history s) \<le> SPARKLINE_LENGTH \<Longrightarrow>
     length (inflight_history s') \<le> SPARKLINE_LENGTH"
proof (induction inps arbitrary: s)
  case Nil
  then show ?case by simp
next
  case (Cons inp inps)
  then show ?case
    by (auto split: sum.splits simp: cycle_history update_history_length)
qed


text \<open>
  Claim C7. The in-flight history never holds more than \<open>SPARKLINE_LENGTH = 60\<close> samples:
  in every run of the polling loop from the initial state the window is within the bound;
  each cycle appends its total and, when the length then exceeds the bound, removes exactly
  the oldest entry; so after any sequence of samples the window is the last at most 60 of
  them, in order.
\<close>

theorem inflight_history_window:
  "(run i inps initial_state = Inr s \<longrightarrow> length (inflight_history s) \<le> SPARKLINE_LENGTH)
   \<and> (cycle i inp s0 = Inr s1 \<longrightarrow>
        inflight_history s1 = update_history (inflight_history s0) (total_in_flight s1))
   \<and> (length (h @ [x]) > SPARKLINE_LENGTH \<longrightarrow> update_history h x = tl (h @ [x]))
   \<and> (length (h @ [x]) \<le> SPARKLINE_LENGTH \<longrightarrow> update_history h x = h @ [x])
   \<and> foldl update_history [] xs = drop (length xs - SPARKLINE_LENGTH) xs
   \<and> length (foldl update_history [] xs) \<le> SPARKLINE_LENGTH
   \<and> SPARKLINE_LENGTH = 60"
proof -
  have "run i inps initial_state = Inr s \<longrightarrow> length (inflight_history s) \<le> SPARKLINE_LENGTH"
    using run_history_bound [of i inps initial_state s] by (simp add: initial_state_def)
  moreover have "cycle i inp s0 = Inr s1 \<longrightarrow>
        inflight_history s1 = update_history (inflight_history s0) (total_in_flight s1)"
    by (simp add: cycle_history)
  moreover have "length (h @ [x]) > SPARKLINE_LENGTH \<longrightarrow> update_history h x = tl (h @ [x])"
    by (simp add: update_history_def Let_def)
  moreover have "length (h @ [x]) \<le> SPARKLINE_LENGTH \<longrightarrow> update_history h x = h @ [x]"
    by (simp add: update_history_def Let_def)
  moreover have "foldl update_history [] xs = drop (length xs - SPARKLINE_LENGTH) xs"
    by (rule foldl_update_history)
  moreover have "length (foldl update_history [] xs) \<le> SPARKLINE_LENGTH"
    by (simp add: foldl_update_history)
  ultimately show ?thesis by (simp add: SPARKLINE_LENGTH_def)
qed


theorem inflight_history_window_witness:
  "run 2 [\<lparr>lookupd_responses = [(''http://a'', InvalidJSON)],
           nsqd_responses = (\<lambda>a p. Unreachable)\<rparr>] initial_state
     = Inr \<lparr>inflight_history = [0], previous_channel_stats = None,
            error_message = Some ''Invalid JSON response from http://a'',
            shown_channels = [], total_in_flight = 0\<rparr>
   \<and> cycle 2 \<lparr>lookupd_responses = [(''http://a'', InvalidJSON)],
               nsqd_responses = (\<lambda>a p. Unreachable)\<rparr> initial_state
     = Inr \<lparr>inflight_history = [0], previous_channel_stats = None,
            error_message = Some ''Invalid JSON response from http://a'',
            shown_channels = [], total_in_flight = 0\<rparr>
   \<and> length (replicate 60 (7::int) @ [9]) > SPARKLINE_LENGTH
   \<and> update_history (replicate 60 7) 9 = replicate 59 7 @ [9]
   \<and> length ([1, 2] @ [3::int]) \<le> SPARKLINE_LENGTH
   \<and> update_history [1, 2] 3 = [1, 2, 3]"
proof -
  let ?inp = "\<lparr>lookupd_responses = [(''http://a'', InvalidJSON)],
               nsqd_responses = (\<lambda>a p. Unreachable)\<rparr>"
  let ?s = "\<lparr>inflight_history = [0], previous_channel_stats = None,
            error_message = Some ''Invalid JSON response from http://a'',
            shown_channels = [], total_in_flight = 0\<rparr>"
  have c: "cycle 2 ?inp initial_state = Inr ?s"
    by (simp add: cycle_def get_nsqd_nodes_def query_lookupd_def initial_state_def
        update_history_def SPARKLINE_LENGTH_def Let_def)
  have r: "run 2 [?inp] initial_state = Inr ?s"
    by (simp add: c)
  have l: "length (replicate 60 (7::int) @ [9]) > SPARKLINE_LENGTH"
    by (simp add: SPARKLINE_LENGTH_def)
  have m: "length ([1, 2] @ [3::int]) \<le> SPARKLINE_LENGTH"
    by (simp add: SPARKLINE_LENGTH_def)
  have t: "tl (replicate 60 (7::int) @ [9]) = replicate 59 7 @ [9]"
    by (simp add: numeral_eq_Suc)
  have u: "update_history (replicate 60 7) 9 = tl (replicate 60 (7::int) @ [9])"
    using inflight_history_window [of 2 "[?inp]" ?s ?inp initial_state ?s "replicate 60 7" 9 "[]"] l
    by blast
  have v: "update_history [1, 2] 3 = [1, 2] @ [3::int]"
    using inflight_history_window [of 2 "[?inp]" ?s ?inp initial_state ?s "[1, 2]" 3 "[]"] m
    by blast
  show ?thesis using c r l m t u v by simp
qed


section \<open>The sparkline\<close>

lemma py_max_ge: "v \<in> set h \<Longrightarrow> v \<le> py_max h"
  by (induction h rule: py_max.induct) auto

lemma py_max_mem: "h \<noteq> [] \<Longrightarrow> py_max h \<in> set h"
  by (induction h rule: py_max.induct) (auto simp: max_def)

lemma py_max_Max: "h \<noteq> [] \<Longrightarrow> py_max h = Max (set h)"
  by (metis List.finite_set Max_eqI py_max_ge py_max_mem)

lemma map_raise_Inr:
  "(\<And>x. x \<in> set xs \<Longrightarrow> f x = Inr (g x)) \<Longrightarrow> map_raise f xs = Inr (map g xs)"
  by (induction xs) auto

lemma py_int_scaled:
  assumes "0 < m" "0 \<le> v"
  shows "py_int (of_int v / of_int m * 7) = (v * 7) div m"
proof -
  have q: "(of_int v / of_int m * 7 :: rat) = of_int (v * 7) / of_int m"
    by simp
  have "(0::rat) \<le> of_int (v * 7) / of_int m"
    using assms by simp
  then show ?thesis
    unfolding q py_int_def by (simp only: if_True floor_divide_of_int_eq)
qed

lemma scale_value_pos:
  assumes "0 < m" "0 \<le> v"
  shows "scale_value m v = Inr ((v * 7) div m)"
proof -
  have "scale_value m v = Inr (py_int (of_int v / of_int m * 7))"
    using assms(1) by (simp add: scale_value_def py_truediv_def SPARKLINE_CHARS_def)
  then show ?thesis
    by (simp only: py_int_scaled [OF assms])
qed

lemma scaled_index_range:
  assumes "0 < (m::int)" "0 \<le> v" "v \<le> m"
  shows "0 \<le> (v * 7) div m \<and> (v * 7) div m < 8"
proof -
  have "v * 7 \<le> m * 7" using assms by simp
  then have "(v * 7) div m \<le> (m * 7) div m"
    using assms(1) zdiv_mono1 by blast
  moreover have "(m * 7) div m = 7" using assms(1) by simp
  moreover have "0 \<le> (v * 7) div m"
    using assms by (simp add: pos_imp_zdiv_nonneg_iff)
  ultimately show ?thesis by simp
qed

lemma py_index_glyph:
  "0 \<le> i \<Longrightarrow> i < 8 \<Longrightarrow> py_index SPARKLINE_CHARS i = Inr (SPARKLINE_CHARS ! nat i)"
  by (simp add: py_index_def SPARKLINE_CHARS_def)

lemma get_sparkline_scaled:
  assumes nonneg: "\<forall>v\<in>set h. 0 \<le> v" and pos: "0 < m" and le: "\<forall>v\<in>set h. v \<le> m"
  shows "(case map_raise (scale_value m) h of
             Inl err \<Rightarrow> Inl err
           | Inr scaled_data \<Rightarrow> map_raise (py_index SPARKLINE_CHARS) scaled_data)
         = Inr (map (\<lambda>v. SPARKLINE_CHARS ! nat ((v * 7) div m)) h)"
proof -
  have 1: "map_raise (scale_value m) h = Inr (map (\<lambda>v. (v * 7) div m) h)"
    using nonneg pos by (intro map_raise_Inr) (simp add: scale_value_pos)
  have 2: "map_raise (py_index SPARKLINE_CHARS) (map (\<lambda>v. (v * 7) div m) h)
           = Inr (map (\<lambda>i. SPARKLINE_CHARS ! nat i) (map (\<lambda>v. (v * 7) div m) h))"
    using nonneg pos le by (intro map_raise_Inr) (auto simp: py_index_glyph scaled_index_range)
  show ?thesis by (simp add: 1 2 comp_def)
qed

lemma get_sparkline_linear:
  assumes nonneg: "\<forall>v\<in>set h. 0 \<le> v" and pos: "0 < py_max h"
  shows "get_sparkline h = Inr (map (\<lambda>v. SPARKLINE_CHARS ! nat ((v * 7) div py_max h)) h)"
proof -
  have "h \<noteq> []" using pos by auto
  moreover have "\<forall>v\<in>set h. v \<le> py_max h" by (simp add: py_max_ge)
  ultimately show ?thesis
    using get_sparkline_scaled [OF nonneg pos] pos by (simp add: get_sparkline_def)
qed

lemma get_sparkline_flat:
  assumes nonneg: "\<forall>v\<in>set h. 0 \<le> v" and flat: "\<not> 0 < py_max h"
  shows "get_sparkline h = Inr (replicate (length h) (SPARKLINE_CHARS ! 0))"
proof (cases "h = []")
  case True
  then show ?thesis by (simp add: get_sparkline_def)
next
  case False
  have z: "\<forall>v\<in>set h. v = 0"
    using nonneg flat py_max_ge by fastforce
  then have le: "\<forall>v\<in>set h. v \<le> 1" by auto
  have "map (\<lambda>v. SPARKLINE_CHARS ! nat ((v * 7) div 1)) h
        = replicate (length h) (SPARKLINE_CHARS ! 0)"
    using z by (induction h) auto
  then show ?thesis
    using get_sparkline_scaled [OF nonneg _ le, of ] False flat
    by (simp add: get_sparkline_def)
qed

lemma map_raise_Inl:
  "map_raise f xs = Inl e \<Longrightarrow> \<exists>x\<in>set xs. f x = Inl e"
  by (induction xs) (auto split: sum.splits)

lemma scale_value_no_zero_division: "m \<noteq> 0 \<Longrightarrow> scale_value m v \<noteq> Inl e"
  by (simp add: scale_value_def py_truediv_def)

lemma py_index_error: "py_index xs i = Inl e \<Longrightarrow> e = IndexError"
  by (auto simp: py_index_def split: if_splits)

lemma get_sparkline_error: "get_sparkline h = Inl e \<Longrightarrow> e = IndexError"
proof -
  assume a: "get_sparkline h = Inl e"
  let ?m = "if py_max h > 0 then py_max h else 1"
  have m: "?m \<noteq> 0" by simp
  from a have ne: "h \<noteq> []" by (auto simp: get_sparkline_def)
  from a ne obtain sd where "map_raise (scale_value ?m) h = Inr sd"
      and "map_raise (py_index SPARKLINE_CHARS) sd = Inl e"
    using scale_value_no_zero_division [OF m]
    by (auto simp: get_sparkline_def Let_def split: sum.splits dest!: map_raise_Inl)
  then show ?thesis
    by (auto dest!: map_raise_Inl py_index_error)
qed


text \<open>
  Claim C9. The sparkline never divides by zero: \<open>get_sparkline\<close> never raises
  \<open>ZeroDivisionError\<close>; a window of zeros only gives the lowest glyph (the blank, code
  point \<open>0x20\<close>) once per sample; and when the samples are non-negative with a positive
  maximum, every sample \<open>v\<close> gets the glyph of index \<open>\<lfloor>7 * v / max\<rfloor>\<close>, where \<open>max\<close> is
  the maximum of the window.
\<close>

theorem sparkline_no_division_by_zero:
  "get_sparkline h \<noteq> Inl ZeroDivisionError
   \<and> ((\<forall>v\<in>set h. v = 0) \<longrightarrow> get_sparkline h = Inr (replicate (length h) 0x20))
   \<and> ((\<forall>v\<in>set h. 0 \<le> v) \<and> 0 < py_max h \<longrightarrow>
        py_max h = Max (set h) \<and>
        get_sparkline h = Inr (map (\<lambda>v. SPARKLINE_CHARS ! nat ((v * 7) div py_max h)) h))"
proof (intro conjI impI)
  show "get_sparkline h \<noteq> Inl ZeroDivisionError"
    using get_sparkline_error [of h ZeroDivisionError] by auto
next
  assume z: "\<forall>v\<in>set h. v = 0"
  then have nonneg: "\<forall>v\<in>set h. 0 \<le> v" by auto
  have "\<not> 0 < py_max h"
  proof (cases "h = []")
    case True
    then show ?thesis by simp
  next
    case False
    then show ?thesis using py_max_mem [of h] z by auto
  qed
  then show "get_sparkline h = Inr (replicate (length h) 0x20)"
    using get_sparkline_flat [OF nonneg] by (simp add: SPARKLINE_CHARS_def)
next
  assume a: "(\<forall>v\<in>set h. 0 \<le> v) \<and> 0 < py_max h"
  then have "h \<noteq> []" by auto
  then show "py_max h = Max (set h)" by (rule py_max_Max)
next
  assume a: "(\<forall>v\<in>set h. 0 \<le> v) \<and> 0 < py_max h"
  then show "get_sparkline h = Inr (map (\<lambda>v. SPARKLINE_CHARS ! nat ((v * 7) div py_max h)) h)"
    by (simp add: get_sparkline_linear)
qed

theorem sparkline_no_division_by_zero_witness:
  "get_sparkline [0, 0, 0] = Inr [0x20, 0x20, 0x20]
   \<and> 0 < py_max [1, 7, 3, 0]
   \<and> get_sparkline [1, 7, 3, 0] = Inr [0x2582, 0x2588, 0x2584, 0x20]"
proof -
  have z: "\<forall>v\<in>set [0, 0, 0 :: int]. v = 0" by simp
  have n: "(\<forall>v\<in>set [1, 7, 3, 0 :: int]. 0 \<le> v) \<and> 0 < py_max [1, 7, 3, 0]" by simp
  have "get_sparkline [0, 0, 0] = Inr (replicate (length [0, 0, 0 :: int]) 0x20)"
    using sparkline_no_division_by_zero [of "[0, 0, 0]"] z by blast
  then have 1: "get_sparkline [0, 0, 0] = Inr [0x20, 0x20, 0x20]"
    by (simp add: numeral_eq_Suc)
  have "get_sparkline [1, 7, 3, 0]
        = Inr (map (\<lambda>v. SPARKLINE_CHARS ! nat ((v * 7) div py_max [1, 7, 3, 0])) [1, 7, 3, 0])"
    using sparkline_no_division_by_zero [of "[1, 7, 3, 0]"] n by blast
  then have 2: "get_sparkline [1, 7, 3, 0] = Inr [0x2582, 0x2588, 0x2584, 0x20]"
    by (simp add: SPARKLINE_CHARS_def)
  show ?thesis using n 1 2 by blast
qed

text \<open>
  Claim C10. For a history of non-negative integers the sparkline has exactly one glyph
  per sample; the empty history gives the empty string; and when the maximum is positive,
  every sample equal to the maximum gets the highest glyph (the full block, code point
  \<open>0x2588\<close>).
\<close>

theorem sparkline_one_glyph_per_sample:
  "get_sparkline [] = Inr []
   \<and> ((\<forall>v\<in>set h. 0 \<le> v) \<longrightarrow>
        (\<exists>gs. get_sparkline h = Inr gs \<and> length gs = length h
           \<and> (0 < py_max h \<longrightarrow>
                 (\<forall>i<length h. h ! i = py_max h \<longrightarrow> gs ! i = 0x2588))))"
proof (intro conjI impI)
  show "get_sparkline [] = Inr []" by (simp add: get_sparkline_def)
next
  assume nonneg: "\<forall>v\<in>set h. 0 \<le> v"
  show "\<exists>gs. get_sparkline h = Inr gs \<and> length gs = length h
           \<and> (0 < py_max h \<longrightarrow> (\<forall>i<length h. h ! i = py_max h \<longrightarrow> gs ! i = 0x2588))"
  proof (cases "0 < py_max h")
    case True
    let ?gs = "map (\<lambda>v. SPARKLINE_CHARS ! nat ((v * 7) div py_max h)) h"
    have "get_sparkline h = Inr ?gs"
      using nonneg True by (rule get_sparkline_linear)
    moreover have "length ?gs = length h" by simp
    moreover have "\<forall>i<length h. h ! i = py_max h \<longrightarrow> ?gs ! i = 0x2588"
      using True by (simp add: SPARKLINE_CHARS_def)
    ultimately show ?thesis by blast
  next
    case False
    then show ?thesis
      using get_sparkline_flat [OF nonneg] by simp
  qed
qed

theorem sparkline_one_glyph_per_sample_witness:
  "0 < py_max [2, 5, 5, 0]
   \<and> (\<exists>gs. get_sparkline [2, 5, 5, 0] = Inr gs \<and> length gs = 4
          \<and> gs ! 1 = 0x2588 \<and> gs ! 2 = 0x2588)"
proof -
  have n: "\<forall>v\<in>set [2, 5, 5, 0 :: int]. 0 \<le> v" by simp
  have m: "py_max [2, 5, 5, 0] = 5" by simp
  from sparkline_one_glyph_per_sample [of "[2, 5, 5, 0]"] n
  obtain gs where g: "get_sparkline [2, 5, 5, 0] = Inr gs"
      and l: "length gs = length [2, 5, 5, 0 :: int]"
      and t: "0 < py_max [2, 5, 5, 0] \<longrightarrow>
                 (\<forall>i<length [2, 5, 5, 0 :: int]. [2, 5, 5, 0] ! i = py_max [2, 5, 5, 0]
                     \<longrightarrow> gs ! i = 0x2588)"
    by blast
  from t m have "gs ! 1 = 0x2588" and "gs ! 2 = 0x2588"
    by (simp_all add: numeral_2_eq_2)
  with g l n m show ?thesis by simp
qed

section \<open>The channels that process_stats returns\<close>

lemma aggregate_entry:
  assumes "(k, e) \<in> set (fst (aggregate docs))"
  shows "\<exists>tc rest. filter (\<lambda>tc. contribution_key tc = k) (contributions docs) = tc # rest
           \<and> e = accumulate_all (new_entry (fst tc) (snd tc)) (hosted k docs)"
proof -
  have "map_of (fst (aggregate docs)) k = Some e"
    using assms aggregate_distinct by simp
  then show ?thesis
    by (auto simp: aggregate_lookup split: list.splits)
qed

lemma aggregate_entry_key:
  assumes "(k, e) \<in> set (fst (aggregate docs))"
  shows "k = channel_key (topic e) (channel e)"
proof -
  from aggregate_entry [OF assms] obtain tc rest
    where f: "filter (\<lambda>tc. contribution_key tc = k) (contributions docs) = tc # rest"
      and e: "e = accumulate_all (new_entry (fst tc) (snd tc)) (hosted k docs)"
    by blast
  have "tc \<in> set (filter (\<lambda>tc. contribution_key tc = k) (contributions docs))"
    by (simp add: f)
  then have "contribution_key tc = k" by simp
  then show ?thesis
    by (simp add: e accumulate_all_fields new_entry_def contribution_key_def)
qed

lemma rate_for_Inr:
  "rate_for p i k e = Inr e' \<Longrightarrow> \<exists>r m. e' = e\<lparr>rate_per_second := r, rate_per_minute := m\<rparr>"
  by (auto simp: rate_for_def Let_def split: sum.splits)

lemma annotate_rates_Inr:
  "annotate_rates p i cd = Inr cd' \<Longrightarrow>
     list_all2 (\<lambda>x y. fst y = fst x
        \<and> (\<exists>r m. snd y = (snd x)\<lparr>rate_per_second := r, rate_per_minute := m\<rparr>)) cd cd'"
proof (induction cd arbitrary: cd')
  case Nil
  then show ?case by simp
next
  case (Cons x cd)
  obtain k e where x: "x = (k, e)" by (cases x)
  from Cons.prems x obtain e' rest' where r: "rate_for p i k e = Inr e'"
      and a: "annotate_rates p i cd = Inr rest'" and c: "cd' = (k, e') # rest'"
    by (auto split: sum.splits)
  from rate_for_Inr [OF r] Cons.IH [OF a] show ?case
    by (simp add: x c)
qed

lemma zero_rates_rel:
  "list_all2 (\<lambda>x y. fst y = fst x
        \<and> (\<exists>r m. snd y = (snd x)\<lparr>rate_per_second := r, rate_per_minute := m\<rparr>)) cd (zero_rates cd)"
  unfolding zero_rates_def list_all2_map2
  by (rule list_all2_refl) (auto split: prod.splits)

lemma rate_engine_Inr:
  "rate_engine cd prev i = Inr cd' \<Longrightarrow>
     list_all2 (\<lambda>x y. fst y = fst x
        \<and> (\<exists>r m. snd y = (snd x)\<lparr>rate_per_second := r, rate_per_minute := m\<rparr>)) cd cd'"
  by (auto simp: rate_engine_def zero_rates_rel annotate_rates_Inr split: option.splits if_splits)

lemma process_stats_Inr:
  assumes "process_stats docs prev i = Inr (chs, tif)"
  obtains cd' where "rate_engine (fst (aggregate docs)) prev i = Inr cd'"
    and "chs = rank_channels (map snd cd')" and "tif = snd (aggregate docs)"
  using assms by (auto simp: process_stats_def Let_def split: sum.splits)

lemma set_rank_channels: "set (rank_channels vs) = set vs"
  by (simp add: rank_channels_def)



lemma list_all2_member2:
  assumes "list_all2 P xs ys" and "y \<in> set ys"
  shows "\<exists>x\<in>set xs. P x y"
proof -
  from assms(2) obtain n where n: "n < length ys" and y: "ys ! n = y"
    by (auto simp: in_set_conv_nth)
  have "P (xs ! n) (ys ! n)"
    using assms(1) n by (rule list_all2_nthD2)
  moreover have "n < length xs"
    using assms(1) n by (simp add: list_all2_lengthD)
  ultimately show ?thesis
    using y by auto
qed

lemma process_stats_member:
  assumes ps: "process_stats docs prev i = Inr (chs, tif)" and mem: "e \<in> set chs"
  shows "\<exists>e0 r m. (channel_key (topic e) (channel e), e0) \<in> set (fst (aggregate docs))
           \<and> e = e0\<lparr>rate_per_second := r, rate_per_minute := m\<rparr>"
proof -
  from ps obtain cd' where re: "rate_engine (fst (aggregate docs)) prev i = Inr cd'"
    and chs: "chs = rank_channels (map snd cd')"
    by (rule process_stats_Inr)
  from mem chs obtain k where "(k, e) \<in> set cd'"
    by (auto simp: set_rank_channels)
  with list_all2_member2 [OF rate_engine_Inr [OF re]]
  obtain x where x: "x \<in> set (fst (aggregate docs))"
    and fx: "fst (k, e) = fst x"
    and ex: "\<exists>r m. snd (k, e) = (snd x)\<lparr>rate_per_second := r, rate_per_minute := m\<rparr>"
    by blast
  from x fx have kx: "(k, snd x) \<in> set (fst (aggregate docs))" by simp
  from ex obtain r m where e: "e = (snd x)\<lparr>rate_per_second := r, rate_per_minute := m\<rparr>"
    by auto
  have "k = channel_key (topic (snd x)) (channel (snd x))"
    by (rule aggregate_entry_key [OF kx])
  then have "k = channel_key (topic e) (channel e)" by (simp add: e)
  with kx e show ?thesis by blast
qed


lemma hosted_subset: "ch \<in> set (hosted k docs) \<Longrightarrow> \<exists>tc\<in>set (contributions docs). snd tc = ch"
  by (auto simp: hosted_def)

text \<open>
  Claim C6. When every reported depth, backend depth, in-flight count and message count
  is non-negative, the depth of every channel that \<open>process_stats\<close> returns is the sum of
  \<open>depth + backend_depth\<close> over the contributions to its key, its in-flight count is the
  sum of theirs, and depth, in-flight count and message count are non-negative.
\<close>

theorem aggregated_depth_is_sum:
  assumes nonneg: "\<forall>tc\<in>set (contributions docs).
             0 \<le> depth (snd tc) \<and> 0 \<le> backend_depth (snd tc)
             \<and> 0 \<le> in_flight_count (snd tc) \<and> 0 \<le> get_message_count (snd tc)"
    and ps: "process_stats docs prev i = Inr (chs, tif)"
    and mem: "e \<in> set chs"
  shows "agg_depth e
           = (\<Sum>ch\<leftarrow>hosted (channel_key (topic e) (channel e)) docs. depth ch + backend_depth ch)
         \<and> agg_in_flight_count e
           = (\<Sum>ch\<leftarrow>hosted (channel_key (topic e) (channel e)) docs. in_flight_count ch)
         \<and> 0 \<le> agg_depth e \<and> 0 \<le> agg_in_flight_count e \<and> 0 \<le> agg_message_count e"
proof -
  let ?k = "channel_key (topic e) (channel e)"
  from process_stats_member [OF ps mem] obtain e0 r m
    where e0: "(?k, e0) \<in> set (fst (aggregate docs))"
      and e: "e = e0\<lparr>rate_per_second := r, rate_per_minute := m\<rparr>"
    by blast
  from aggregate_entry [OF e0] obtain tc rest
    where f: "filter (\<lambda>tc. contribution_key tc = ?k) (contributions docs) = tc # rest"
      and a: "e0 = accumulate_all (new_entry (fst tc) (snd tc)) (hosted ?k docs)"
    by blast
  have "tc \<in> set (filter (\<lambda>tc. contribution_key tc = ?k) (contributions docs))"
    by (simp add: f)
  then have "tc \<in> set (contributions docs)" by simp
  with nonneg have first: "0 \<le> get_message_count (snd tc)" by blast
  have same: "agg_depth e = agg_depth e0" "agg_in_flight_count e = agg_in_flight_count e0"
    "agg_message_count e = agg_message_count e0"
    by (simp_all add: e)
  have d0: "agg_depth e0 = (\<Sum>ch\<leftarrow>hosted ?k docs. depth ch + backend_depth ch)"
    by (subst a) (simp add: accumulate_all_fields new_entry_def)
  have n0: "agg_in_flight_count e0 = (\<Sum>ch\<leftarrow>hosted ?k docs. in_flight_count ch)"
    by (subst a) (simp add: accumulate_all_fields new_entry_def)
  have c0: "agg_message_count e0
           = get_message_count (snd tc) + (\<Sum>ch\<leftarrow>hosted ?k docs. get_message_count ch)"
    by (subst a) (simp add: accumulate_all_fields new_entry_def)
  note d = d0 [folded same] and n = n0 [folded same] and c = c0 [folded same]
  have h: "0 \<le> depth ch \<and> 0 \<le> backend_depth ch \<and> 0 \<le> in_flight_count ch
           \<and> 0 \<le> get_message_count ch" if "ch \<in> set (hosted ?k docs)" for ch
    using hosted_subset [OF that] nonneg by auto
  have "0 \<le> (\<Sum>ch\<leftarrow>hosted ?k docs. depth ch + backend_depth ch)"
    by (rule sum_list_nonneg) (auto dest: h)
  moreover have "0 \<le> (\<Sum>ch\<leftarrow>hosted ?k docs. in_flight_count ch)"
    by (rule sum_list_nonneg) (auto dest: h)
  moreover have "0 \<le> (\<Sum>ch\<leftarrow>hosted ?k docs. get_message_count ch)"
    by (rule sum_list_nonneg) (auto dest: h)
  ultimately show ?thesis
    using d n c first by simp
qed

theorem aggregated_depth_is_sum_witness:
  "process_stats
     [\<lparr>topics = [\<lparr>topic_name = ''t'', channels =
         [\<lparr>channel_name = ''c'', depth = 3, backend_depth = 1, in_flight_count = 2,
           message_count = Some 10\<rparr>]\<rparr>]\<rparr>,
      \<lparr>topics = [\<lparr>topic_name = ''t'', channels =
         [\<lparr>channel_name = ''c'', depth = 5, backend_depth = 0, in_flight_count = 1,
           message_count = Some 20\<rparr>]\<rparr>]\<rparr>] None 2
   = Inr ([\<lparr>topic = ''t'', channel = ''c'', agg_depth = 9, agg_in_flight_count = 3,
            agg_message_count = 40, rate_per_second = Some 0, rate_per_minute = Some 0\<rparr>], 3)
   \<and> (\<Sum>ch\<leftarrow>hosted ''t/c''
     [\<lparr>topics = [\<lparr>topic_name = ''t'', channels =
         [\<lparr>channel_name = ''c'', depth = 3, backend_depth = 1, in_flight_count = 2,
           message_count = Some 10\<rparr>]\<rparr>]\<rparr>,
      \<lparr>topics = [\<lparr>topic_name = ''t'', channels =
         [\<lparr>channel_name = ''c'', depth = 5, backend_depth = 0, in_flight_count = 1,
           message_count = Some 20\<rparr>]\<rparr>]\<rparr>]. depth ch + backend_depth ch) = 9"
proof -
  let ?A = "\<lparr>topics = [\<lparr>topic_name = ''t'', channels =
         [\<lparr>channel_name = ''c'', depth = 3, backend_depth = 1, in_flight_count = 2,
           message_count = Some 10\<rparr>]\<rparr>]\<rparr>"
  let ?B = "\<lparr>topics = [\<lparr>topic_name = ''t'', channels =
         [\<lparr>channel_name = ''c'', depth = 5, backend_depth = 0, in_flight_count = 1,
           message_count = Some 20\<rparr>]\<rparr>]\<rparr>"
  let ?E = "\<lparr>topic = ''t'', channel = ''c'', agg_depth = 9, agg_in_flight_count = 3,
            agg_message_count = 40, rate_per_second = Some 0, rate_per_minute = Some 0\<rparr>"
  have ps: "process_stats [?A, ?B] None 2 = Inr ([?E], 3)"
    by (simp add: process_stats_def aggregate_def add_stats_def add_topic_def add_channel_def
      channel_key_def new_entry_def accumulate_def get_message_count_def rate_engine_def
      zero_rates_def rank_channels_def Let_def)
  have nonneg: "\<forall>tc\<in>set (contributions [?A, ?B]).
             0 \<le> depth (snd tc) \<and> 0 \<le> backend_depth (snd tc)
             \<and> 0 \<le> in_flight_count (snd tc) \<and> 0 \<le> get_message_count (snd tc)"
    by (simp add: contributions_def get_message_count_def)
  have mem: "?E \<in> set [?E]" by simp
  have "agg_depth ?E
        = (\<Sum>ch\<leftarrow>hosted (channel_key (topic ?E) (channel ?E)) [?A, ?B]. depth ch + backend_depth ch)"
    using aggregated_depth_is_sum [OF nonneg ps mem] by blast
  then have "(\<Sum>ch\<leftarrow>hosted ''t/c'' [?A, ?B]. depth ch + backend_depth ch) = 9"
    by (simp add: channel_key_def)
  with ps show ?thesis by blast
qed

lemma aggregate_message_count:
  assumes "(k, e) \<in> set (fst (aggregate docs))"
  shows "agg_message_count e
         = get_message_count (hd (hosted k docs)) + (\<Sum>ch\<leftarrow>hosted k docs. get_message_count ch)"
proof -
  from aggregate_entry [OF assms] obtain tc rest
    where f: "filter (\<lambda>tc. contribution_key tc = k) (contributions docs) = tc # rest"
      and a: "e = accumulate_all (new_entry (fst tc) (snd tc)) (hosted k docs)"
    by blast
  have "hd (hosted k docs) = snd tc"
    by (simp add: hosted_def f)
  then show ?thesis
    by (subst a) (simp add: accumulate_all_fields new_entry_def)
qed

text \<open>
  Claim C1, evaluated. A channel that a single broker reports with a message counter of 5
  is returned with a message count of 10: line 88 initialises the entry with the
  broker's counter, not with zero, and line 94 then adds the same counter again.
\<close>

theorem single_broker_message_count_doubled:
  "process_stats
     [\<lparr>topics = [\<lparr>topic_name = ''t'', channels =
         [\<lparr>channel_name = ''c'', depth = 0, backend_depth = 0, in_flight_count = 0,
           message_count = Some 5\<rparr>]\<rparr>]\<rparr>] None 2
   = Inr ([\<lparr>topic = ''t'', channel = ''c'', agg_depth = 0, agg_in_flight_count = 0,
            agg_message_count = 10, rate_per_second = Some 0, rate_per_minute = Some 0\<rparr>], 0)"
  by (simp add: process_stats_def aggregate_def add_stats_def add_topic_def add_channel_def
      channel_key_def new_entry_def accumulate_def get_message_count_def rate_engine_def
      zero_rates_def rank_channels_def Let_def)

text \<open>
  Claim C2, evaluated. Two brokers report the same channel with message counters 10 and
  20. In one order the aggregated message count is 40, in the other 50: the counter of
  the broker seen first is counted twice. Depth, in-flight count and the total agree.
\<close>

theorem permuted_brokers_message_count_differs:
  "process_stats
     [\<lparr>topics = [\<lparr>topic_name = ''t'', channels =
         [\<lparr>channel_name = ''c'', depth = 3, backend_depth = 1, in_flight_count = 2,
           message_count = Some 10\<rparr>]\<rparr>]\<rparr>,
      \<lparr>topics = [\<lparr>topic_name = ''t'', channels =
         [\<lparr>channel_name = ''c'', depth = 5, backend_depth = 0, in_flight_count = 1,
           message_count = Some 20\<rparr>]\<rparr>]\<rparr>] None 2
   = Inr ([\<lparr>topic = ''t'', channel = ''c'', agg_depth = 9, agg_in_flight_count = 3,
            agg_message_count = 40, rate_per_second = Some 0, rate_per_minute = Some 0\<rparr>], 3)
   \<and> process_stats
     [\<lparr>topics = [\<lparr>topic_name = ''t'', channels =
         [\<lparr>channel_name = ''c'', depth = 5, backend_depth = 0, in_flight_count = 1,
           message_count = Some 20\<rparr>]\<rparr>]\<rparr>,
      \<lparr>topics = [\<lparr>topic_name = ''t'', channels =
         [\<lparr>channel_name = ''c'', depth = 3, backend_depth = 1, in_flight_count = 2,
           message_count = Some 10\<rparr>]\<rparr>]\<rparr>] None 2
   = Inr ([\<lparr>topic = ''t'', channel = ''c'', agg_depth = 9, agg_in_flight_count = 3,
            agg_message_count = 50, rate_per_second = Some 0, rate_per_minute = Some 0\<rparr>], 3)"
  by (simp add: process_stats_def aggregate_def add_stats_def add_topic_def add_channel_def
      channel_key_def new_entry_def accumulate_def get_message_count_def rate_engine_def
      zero_rates_def rank_channels_def Let_def)

section \<open>Rates and ranking\<close>

lemma rate_for_nonzero:
  assumes "i \<noteq> 0"
  shows "rate_for p i k e
         = Inr (e\<lparr>rate_per_second := Some (spec_rate_per_second (Some p) i k e),
                rate_per_minute := Some (spec_rate_per_second (Some p) i k e * 60)\<rparr>)"
  using assms
  by (simp add: rate_for_def py_truediv_def spec_rate_per_second_def Let_def split: option.splits)

lemma annotate_rates_nonzero:
  assumes "i \<noteq> 0"
  shows "annotate_rates p i cd
         = Inr (map (\<lambda>(k, e). (k, e\<lparr>rate_per_second := Some (spec_rate_per_second (Some p) i k e),
                    rate_per_minute := Some (spec_rate_per_second (Some p) i k e * 60)\<rparr>)) cd)"
proof (induction cd)
  case Nil
  show ?case by simp
next
  case (Cons x cd)
  obtain k e where x: "x = (k, e)" by (cases x)
  show ?case
    unfolding x by (simp add: rate_for_nonzero [OF assms] Cons.IH)
qed

text \<open>
  Claim C3. For an elapsed interval above zero the rate engine returns every channel with
  the rate per second of the specification and sixty times it as the rate per minute:
  zero when there is no previous mapping, zero for a key the previous mapping lacks, and
  otherwise \<open>max 0 (current - previous) / elapsed\<close>.
\<close>

theorem rate_annotation:
  assumes "0 < elapsed"
  shows "rate_engine cd previous elapsed
         = Inr (map (\<lambda>(k, e).
                  (k, e\<lparr>rate_per_second := Some (spec_rate_per_second previous elapsed k e),
                        rate_per_minute := Some (spec_rate_per_second previous elapsed k e * 60)\<rparr>))
                cd)"
proof (cases previous)
  case None
  then show ?thesis
    by (simp add: rate_engine_def zero_rates_def spec_rate_per_second_def)
next
  case (Some p)
  show ?thesis
  proof (cases "p = []")
    case True
    with Some show ?thesis
      by (simp add: rate_engine_def zero_rates_def spec_rate_per_second_def)
  next
    case False
    from assms have "elapsed \<noteq> 0" by simp
    with Some False show ?thesis
      by (simp add: rate_engine_def annotate_rates_nonzero)
  qed
qed


theorem rate_annotation_witness:
  "rate_engine
     [(''t/c'', \<lparr>topic = ''t'', channel = ''c'', agg_depth = 0, agg_in_flight_count = 0, agg_message_count = 130, rate_per_second = None, rate_per_minute = None\<rparr>),
      (''t/new'', \<lparr>topic = ''t'', channel = ''new'', agg_depth = 0, agg_in_flight_count = 0, agg_message_count = 7, rate_per_second = None, rate_per_minute = None\<rparr>),
      (''t/reset'', \<lparr>topic = ''t'', channel = ''reset'', agg_depth = 0, agg_in_flight_count = 0, agg_message_count = 10, rate_per_second = None, rate_per_minute = None\<rparr>)]
     (Some [(''t/c'', \<lparr>topic = ''t'', channel = ''c'', agg_depth = 0, agg_in_flight_count = 0, agg_message_count = 100, rate_per_second = Some 0, rate_per_minute = Some 0\<rparr>),
      (''t/reset'', \<lparr>topic = ''t'', channel = ''reset'', agg_depth = 0, agg_in_flight_count = 0, agg_message_count = 500, rate_per_second = Some 0, rate_per_minute = Some 0\<rparr>)]) 2
   = Inr [(''t/c'', \<lparr>topic = ''t'', channel = ''c'', agg_depth = 0, agg_in_flight_count = 0, agg_message_count = 130, rate_per_second = Some 15, rate_per_minute = Some 900\<rparr>),
      (''t/new'', \<lparr>topic = ''t'', channel = ''new'', agg_depth = 0, agg_in_flight_count = 0, agg_message_count = 7, rate_per_second = Some 0, rate_per_minute = Some 0\<rparr>),
      (''t/reset'', \<lparr>topic = ''t'', channel = ''reset'', agg_depth = 0, agg_in_flight_count = 0, agg_message_count = 10, rate_per_second = Some 0, rate_per_minute = Some 0\<rparr>)]
   \<and> rate_engine
     [(''t/c'', \<lparr>topic = ''t'', channel = ''c'', agg_depth = 0, agg_in_flight_count = 0, agg_message_count = 130, rate_per_second = None, rate_per_minute = None\<rparr>),
      (''t/new'', \<lparr>topic = ''t'', channel = ''new'', agg_depth = 0, agg_in_flight_count = 0, agg_message_count = 7, rate_per_second = None, rate_per_minute = None\<rparr>),
      (''t/reset'', \<lparr>topic = ''t'', channel = ''reset'', agg_depth = 0, agg_in_flight_count = 0, agg_message_count = 10, rate_per_second = None, rate_per_minute = None\<rparr>)]
     None 2
   = Inr [(''t/c'', \<lparr>topic = ''t'', channel = ''c'', agg_depth = 0, agg_in_flight_count = 0, agg_message_count = 130, rate_per_second = Some 0, rate_per_minute = Some 0\<rparr>),
      (''t/new'', \<lparr>topic = ''t'', channel = ''new'', agg_depth = 0, agg_in_flight_count = 0, agg_message_count = 7, rate_per_second = Some 0, rate_per_minute = Some 0\<rparr>),
      (''t/reset'', \<lparr>topic = ''t'', channel = ''reset'', agg_depth = 0, agg_in_flight_count = 0, agg_message_count = 10, rate_per_second = Some 0, rate_per_minute = Some 0\<rparr>)]"
proof -
  have pos: "(0::int) < 2" by simp
  show ?thesis
    by (simp add: rate_annotation [OF pos] spec_rate_per_second_def)
qed


lemma rank_channels_sorted:
  "sorted_wrt (\<lambda>a b. agg_depth b \<le> agg_depth a) (rank_channels vs)"
proof -
  have "sorted (map (\<lambda>x. - agg_depth x) (rank_channels vs))"
    unfolding rank_channels_def by (rule sorted_sort_key)
  then show ?thesis
    by (simp add: sorted_map)
qed

lemma rank_channels_stable:
  "filter (\<lambda>c. agg_depth c = d) (rank_channels vs) = filter (\<lambda>c. agg_depth c = d) vs"
  using sort_key_stable [of "\<lambda>x. - agg_depth x" "- d" vs]
  by (simp add: rank_channels_def)

text \<open>
  Claim C8. The ranking is a function of the aggregated channels in their first-seen
  order: it returns the same channels, sorted by depth descending, and channels of equal
  depth keep the relative order they had; the list that \<open>process_stats\<close> returns is this
  ranking of the annotated channels, whose keys are in first-seen order.
\<close>

theorem ranking_deterministic:
  "sorted_wrt (\<lambda>a b. agg_depth b \<le> agg_depth a) (rank_channels vs)
   \<and> mset (rank_channels vs) = mset vs
   \<and> filter (\<lambda>c. agg_depth c = d) (rank_channels vs) = filter (\<lambda>c. agg_depth c = d) vs
   \<and> (process_stats docs prev i = Inr (chs, tif) \<longrightarrow>
        sorted_wrt (\<lambda>a b. agg_depth b \<le> agg_depth a) chs
        \<and> (\<exists>cd'. rate_engine (fst (aggregate docs)) prev i = Inr cd'
               \<and> map fst cd' = map fst (fst (aggregate docs))
               \<and> chs = rank_channels (map snd cd')))"
proof (intro conjI impI)
  show "sorted_wrt (\<lambda>a b. agg_depth b \<le> agg_depth a) (rank_channels vs)"
    by (rule rank_channels_sorted)
  show "mset (rank_channels vs) = mset vs"
    by (simp add: rank_channels_def)
  show "filter (\<lambda>c. agg_depth c = d) (rank_channels vs) = filter (\<lambda>c. agg_depth c = d) vs"
    by (rule rank_channels_stable)
next
  assume ps: "process_stats docs prev i = Inr (chs, tif)"
  then obtain cd' where re: "rate_engine (fst (aggregate docs)) prev i = Inr cd'"
    and chs: "chs = rank_channels (map snd cd')"
    by (rule process_stats_Inr)
  show "sorted_wrt (\<lambda>a b. agg_depth b \<le> agg_depth a) chs"
    unfolding chs by (rule rank_channels_sorted)
  have "list_all2 (\<lambda>x y. fst y = fst x) (fst (aggregate docs)) cd'"
    using rate_engine_Inr [OF re] by (rule list_all2_mono) simp
  then have "map fst cd' = map fst (fst (aggregate docs))"
    by (induction rule: list_all2_induct) simp_all
  with re chs
  show "\<exists>cd'. rate_engine (fst (aggregate docs)) prev i = Inr cd'
               \<and> map fst cd' = map fst (fst (aggregate docs))
               \<and> chs = rank_channels (map snd cd')"
    by blast
qed

theorem ranking_deterministic_witness:
  "process_stats
     [\<lparr>topics = [\<lparr>topic_name = ''t'', channels =
       [\<lparr>channel_name = ''x'', depth = 5, backend_depth = 0, in_flight_count = 0, message_count = None\<rparr>,
        \<lparr>channel_name = ''y'', depth = 9, backend_depth = 0, in_flight_count = 0, message_count = None\<rparr>,
        \<lparr>channel_name = ''z'', depth = 5, backend_depth = 0, in_flight_count = 0, message_count = None\<rparr>]\<rparr>]\<rparr>] None 2
   = Inr ([\<lparr>topic = ''t'', channel = ''y'', agg_depth = 9, agg_in_flight_count = 0, agg_message_count = 0, rate_per_second = Some 0, rate_per_minute = Some 0\<rparr>,
      \<lparr>topic = ''t'', channel = ''x'', agg_depth = 5, agg_in_flight_count = 0, agg_message_count = 0, rate_per_second = Some 0, rate_per_minute = Some 0\<rparr>,
      \<lparr>topic = ''t'', channel = ''z'', agg_depth = 5, agg_in_flight_count = 0, agg_message_count = 0, rate_per_second = Some 0, rate_per_minute = Some 0\<rparr>], 0)
   \<and> rank_channels
     [\<lparr>topic = ''t'', channel = ''x'', agg_depth = 5, agg_in_flight_count = 0, agg_message_count = 0, rate_per_second = Some 0, rate_per_minute = Some 0\<rparr>,
      \<lparr>topic = ''t'', channel = ''y'', agg_depth = 9, agg_in_flight_count = 0, agg_message_count = 0, rate_per_second = Some 0, rate_per_minute = Some 0\<rparr>,
      \<lparr>topic = ''t'', channel = ''z'', agg_depth = 5, agg_in_flight_count = 0, agg_message_count = 0, rate_per_second = Some 0, rate_per_minute = Some 0\<rparr>]
   = [\<lparr>topic = ''t'', channel = ''y'', agg_depth = 9, agg_in_flight_count = 0, agg_message_count = 0, rate_per_second = Some 0, rate_per_minute = Some 0\<rparr>,
      \<lparr>topic = ''t'', channel = ''x'', agg_depth = 5, agg_in_flight_count = 0, agg_message_count = 0, rate_per_second = Some 0, rate_per_minute = Some 0\<rparr>,
      \<lparr>topic = ''t'', channel = ''z'', agg_depth = 5, agg_in_flight_count = 0, agg_message_count = 0, rate_per_second = Some 0, rate_per_minute = Some 0\<rparr>]
   \<and> filter (\<lambda>c. agg_depth c = 5) (rank_channels
     [\<lparr>topic = ''t'', channel = ''x'', agg_depth = 5, agg_in_flight_count = 0, agg_message_count = 0, rate_per_second = Some 0, rate_per_minute = Some 0\<rparr>,
      \<lparr>topic = ''t'', channel = ''y'', agg_depth = 9, agg_in_flight_count = 0, agg_message_count = 0, rate_per_second = Some 0, rate_per_minute = Some 0\<rparr>,
      \<lparr>topic = ''t'', channel = ''z'', agg_depth = 5, agg_in_flight_count = 0, agg_message_count = 0, rate_per_second = Some 0, rate_per_minute = Some 0\<rparr>])
   = [\<lparr>topic = ''t'', channel = ''x'', agg_depth = 5, agg_in_flight_count = 0, agg_message_count = 0, rate_per_second = Some 0, rate_per_minute = Some 0\<rparr>,
      \<lparr>topic = ''t'', channel = ''z'', agg_depth = 5, agg_in_flight_count = 0, agg_message_count = 0, rate_per_second = Some 0, rate_per_minute = Some 0\<rparr>]"
proof -
  let ?docs = "[\<lparr>topics = [\<lparr>topic_name = ''t'', channels =
       [\<lparr>channel_name = ''x'', depth = 5, backend_depth = 0, in_flight_count = 0, message_count = None\<rparr>,
        \<lparr>channel_name = ''y'', depth = 9, backend_depth = 0, in_flight_count = 0, message_count = None\<rparr>,
        \<lparr>channel_name = ''z'', depth = 5, backend_depth = 0, in_flight_count = 0, message_count = None\<rparr>]\<rparr>]\<rparr>]"
  let ?vs = "[\<lparr>topic = ''t'', channel = ''x'', agg_depth = 5, agg_in_flight_count = 0, agg_message_count = 0, rate_per_second = Some 0, rate_per_minute = Some 0\<rparr>,
      \<lparr>topic = ''t'', channel = ''y'', agg_depth = 9, agg_in_flight_count = 0, agg_message_count = 0, rate_per_second = Some 0, rate_per_minute = Some 0\<rparr>,
      \<lparr>topic = ''t'', channel = ''z'', agg_depth = 5, agg_in_flight_count = 0, agg_message_count = 0, rate_per_second = Some 0, rate_per_minute = Some 0\<rparr>]"
  let ?ranked = "[\<lparr>topic = ''t'', channel = ''y'', agg_depth = 9, agg_in_flight_count = 0, agg_message_count = 0, rate_per_second = Some 0, rate_per_minute = Some 0\<rparr>,
      \<lparr>topic = ''t'', channel = ''x'', agg_depth = 5, agg_in_flight_count = 0, agg_message_count = 0, rate_per_second = Some 0, rate_per_minute = Some 0\<rparr>,
      \<lparr>topic = ''t'', channel = ''z'', agg_depth = 5, agg_in_flight_count = 0, agg_message_count = 0, rate_per_second = Some 0, rate_per_minute = Some 0\<rparr>]"
  have ps: "process_stats ?docs None 2 = Inr (?ranked, 0)"
    by (simp add: process_stats_def aggregate_def add_stats_def add_topic_def add_channel_def
      channel_key_def new_entry_def accumulate_def get_message_count_def rate_engine_def
      zero_rates_def rank_channels_def Let_def)
  have r: "rank_channels ?vs = ?ranked"
    by (simp add: rank_channels_def)
  have "filter (\<lambda>c. agg_depth c = 5) (rank_channels ?vs) = filter (\<lambda>c. agg_depth c = 5) ?vs"
    using ranking_deterministic [of ?vs 5 ?docs None 2 ?ranked 0] by blast
  then have f: "filter (\<lambda>c. agg_depth c = 5) (rank_channels ?vs)
                = [\<lparr>topic = ''t'', channel = ''x'', agg_depth = 5, agg_in_flight_count = 0, agg_message_count = 0, rate_per_second = Some 0, rate_per_minute = Some 0\<rparr>,
      \<lparr>topic = ''t'', channel = ''z'', agg_depth = 5, agg_in_flight_count = 0, agg_message_count = 0, rate_per_second = Some 0, rate_per_minute = Some 0\<rparr>]"
    by simp
  from ps r f show ?thesis by blast
qed

section \<open>Endpoint resolution\<close>

lemma query_lookupd_step:
  "query_lookupd ur (ps, es)
   = (ps @ producers_of (snd ur),
      es @ (if address_failed (snd ur) then [error_text ur] else []))"
  by (cases "snd ur")
    (simp_all add: query_lookupd_def producers_of_def address_failed_def error_text_def Let_def)

lemma query_lookupd_fold:
  "foldl (\<lambda>s ur. query_lookupd ur s) (ps, es) rs
   = (ps @ concat (map (\<lambda>ur. producers_of (snd ur)) rs),
      es @ map error_text (filter (\<lambda>ur. address_failed (snd ur)) rs))"
proof (induction rs arbitrary: ps es)
  case Nil
  show ?case by simp
next
  case (Cons ur rs)
  show ?case
    by (simp add: query_lookupd_step Cons.IH)
qed

lemma get_nsqd_nodes_eq:
  "get_nsqd_nodes rs =
     (if concat (map (\<lambda>ur. producers_of (snd ur)) rs) = []
         \<and> filter (\<lambda>ur. address_failed (snd ur)) rs \<noteq> []
      then Inl (join ''; '' (map error_text (filter (\<lambda>ur. address_failed (snd ur)) rs)))
      else Inr (dedup_producers (concat (map (\<lambda>ur. producers_of (snd ur)) rs)) {} []))"
  by (simp add: get_nsqd_nodes_def query_lookupd_fold Let_def)

lemma dedup_producers_Cons:
  "dedup_producers (p # ps) seen acc =
     (if endpoint_key p \<notin> seen
      then dedup_producers ps (insert (endpoint_key p) seen) (acc @ [p])
      else dedup_producers ps seen acc)"
  by (simp add: Let_def endpoint_key_def)

lemma dedup_producers_keys:
  "set (map endpoint_key (dedup_producers ps seen acc))
   = set (map endpoint_key acc) \<union> (set (map endpoint_key ps) - seen)"
  by (induction ps arbitrary: seen acc)
    (auto simp: dedup_producers_Cons simp del: dedup_producers.simps(2))

lemma dedup_producers_distinct:
  "distinct (map endpoint_key acc) \<Longrightarrow> set (map endpoint_key acc) \<subseteq> seen \<Longrightarrow>
     distinct (map endpoint_key (dedup_producers ps seen acc))"
proof (induction ps arbitrary: seen acc)
  case Nil
  then show ?case by simp
next
  case (Cons p ps)
  show ?case
  proof (cases "endpoint_key p \<in> seen")
    case True
    then show ?thesis
      using Cons by (simp add: dedup_producers_Cons del: dedup_producers.simps(2))
  next
    case False
    have "distinct (map endpoint_key (acc @ [p]))"
      using False Cons.prems by auto
    moreover have "set (map endpoint_key (acc @ [p])) \<subseteq> insert (endpoint_key p) seen"
      using Cons.prems by auto
    ultimately have "distinct (map endpoint_key
        (dedup_producers ps (insert (endpoint_key p) seen) (acc @ [p])))"
      by (rule Cons.IH)
    then show ?thesis
      using False by (simp add: dedup_producers_Cons del: dedup_producers.simps(2))
  qed
qed

lemma dedup_producers_subset:
  "set (dedup_producers ps seen acc) \<subseteq> set acc \<union> set ps"
proof (induction ps arbitrary: seen acc)
  case Nil
  show ?case by simp
next
  case (Cons p ps)
  have 1: "set (dedup_producers ps (insert (endpoint_key p) seen) (acc @ [p]))
           \<subseteq> set (acc @ [p]) \<union> set ps"
    by (rule Cons.IH)
  have 2: "set (dedup_producers ps seen acc) \<subseteq> set acc \<union> set ps"
    by (rule Cons.IH)
  show ?case
    using 1 2 by (auto simp: dedup_producers_Cons simp del: dedup_producers.simps(2))
qed


text \<open>
  Claim C5, as stated, fails: the address \<open>http://a\<close> answers with an empty producer
  list and \<open>http://b\<close> fails, so not every address failed, and resolution still returns
  the diagnostic.
\<close>

theorem resolution_fails_with_a_successful_address:
  "get_nsqd_nodes [(''http://a'', Producers []), (''http://b'', InvalidJSON)]
   = Inl ''Invalid JSON response from http://b''
   \<and> \<not> address_failed (Producers [])"
  by (simp add: get_nsqd_nodes_def query_lookupd_def address_failed_def Let_def)

text \<open>
  Claim C5, amended. Resolution fails if and only if no address gave any producer and at
  least one address failed (the guard of line 38); the diagnostic is then the error
  messages of the failed addresses, in order, joined with \<open>; \<close>. Whenever at least one
  address gave a producer, even if others failed, resolution returns endpoints and no
  error: the producers obtained, one for each \<open>(broadcast_address, http_port)\<close> pair.
\<close>

theorem resolution_fails_iff:
  "((\<exists>m. get_nsqd_nodes rs = Inl m)
      \<longleftrightarrow> (\<forall>ur\<in>set rs. producers_of (snd ur) = []) \<and> (\<exists>ur\<in>set rs. address_failed (snd ur)))
   \<and> (get_nsqd_nodes rs = Inl msg \<longrightarrow>
        msg = join ''; '' (map error_text (filter (\<lambda>ur. address_failed (snd ur)) rs)))
   \<and> ((\<exists>ur\<in>set rs. producers_of (snd ur) \<noteq> []) \<longrightarrow>
        (\<exists>nodes. get_nsqd_nodes rs = Inr nodes
           \<and> nodes = dedup_producers (concat (map (\<lambda>ur. producers_of (snd ur)) rs)) {} []
           \<and> set (map endpoint_key nodes)
               = set (map endpoint_key (concat (map (\<lambda>ur. producers_of (snd ur)) rs)))
           \<and> distinct (map endpoint_key nodes)
           \<and> set nodes \<subseteq> set (concat (map (\<lambda>ur. producers_of (snd ur)) rs))))"
proof (intro conjI impI)
  have e: "filter (\<lambda>ur. address_failed (snd ur)) rs \<noteq> [] \<longleftrightarrow> (\<exists>ur\<in>set rs. address_failed (snd ur))"
    by (simp add: filter_empty_conv)
  have c: "concat (map (\<lambda>ur. producers_of (snd ur)) rs) = []
           \<longleftrightarrow> (\<forall>ur\<in>set rs. producers_of (snd ur) = [])"
    by simp
  show "(\<exists>m. get_nsqd_nodes rs = Inl m)
      \<longleftrightarrow> (\<forall>ur\<in>set rs. producers_of (snd ur) = []) \<and> (\<exists>ur\<in>set rs. address_failed (snd ur))"
    unfolding e [symmetric] c [symmetric] by (simp add: get_nsqd_nodes_eq)
next
  assume "get_nsqd_nodes rs = Inl msg"
  then show "msg = join ''; '' (map error_text (filter (\<lambda>ur. address_failed (snd ur)) rs))"
    by (simp add: get_nsqd_nodes_eq split: if_splits)
next
  let ?all = "concat (map (\<lambda>ur. producers_of (snd ur)) rs)"
  assume "\<exists>ur\<in>set rs. producers_of (snd ur) \<noteq> []"
  then have ne: "?all \<noteq> []" by simp
  then have r: "get_nsqd_nodes rs = Inr (dedup_producers ?all {} [])"
    by (simp only: get_nsqd_nodes_eq) simp
  have k: "set (map endpoint_key (dedup_producers ?all {} [])) = set (map endpoint_key ?all)"
    by (simp only: dedup_producers_keys) simp
  have d: "distinct (map endpoint_key (dedup_producers ?all {} []))"
    by (rule dedup_producers_distinct) simp_all
  have s: "set (dedup_producers ?all {} []) \<subseteq> set ?all"
    using dedup_producers_subset [of ?all "{}" "[]"] by simp
  from r k d s
  show "\<exists>nodes. get_nsqd_nodes rs = Inr nodes
           \<and> nodes = dedup_producers ?all {} []
           \<and> set (map endpoint_key nodes) = set (map endpoint_key ?all)
           \<and> distinct (map endpoint_key nodes)
           \<and> set nodes \<subseteq> set ?all"
    by blast
qed

theorem resolution_fails_iff_witness:
  "get_nsqd_nodes [(''http://a'', RequestException ''timeout''), (''http://b'', InvalidJSON)]
   = Inl ''Failed to connect to http://a: timeout; Invalid JSON response from http://b''
   \<and> get_nsqd_nodes
     [(''http://a'', Producers [\<lparr>broadcast_address = ''n1'', http_port = 4151\<rparr>, \<lparr>broadcast_address = ''n2'', http_port = 4151\<rparr>]),
      (''http://b'', RequestException ''timeout''),
      (''http://c'', Producers [\<lparr>broadcast_address = ''n1'', http_port = 4151\<rparr>])]
   = Inr [\<lparr>broadcast_address = ''n1'', http_port = 4151\<rparr>, \<lparr>broadcast_address = ''n2'', http_port = 4151\<rparr>]"
proof -
  let ?rs1 = "[(''http://a'', RequestException ''timeout''), (''http://b'', InvalidJSON)]"
  let ?rs2 = "[(''http://a'', Producers [\<lparr>broadcast_address = ''n1'', http_port = 4151\<rparr>, \<lparr>broadcast_address = ''n2'', http_port = 4151\<rparr>]),
      (''http://b'', RequestException ''timeout''),
      (''http://c'', Producers [\<lparr>broadcast_address = ''n1'', http_port = 4151\<rparr>])]"
  have h1: "(\<forall>ur\<in>set ?rs1. producers_of (snd ur) = []) \<and> (\<exists>ur\<in>set ?rs1. address_failed (snd ur))"
    by (simp add: producers_of_def address_failed_def)
  have i: "(\<exists>m. get_nsqd_nodes ?rs1 = Inl m)"
    using resolution_fails_iff [of ?rs1] h1 by blast
  then obtain m where m: "get_nsqd_nodes ?rs1 = Inl m" by blast
  then have "m = join ''; '' (map error_text (filter (\<lambda>ur. address_failed (snd ur)) ?rs1))"
    using resolution_fails_iff [of ?rs1 m] by blast
  then have "m = ''Failed to connect to http://a: timeout; Invalid JSON response from http://b''"
    by (simp add: error_text_def address_failed_def)
  with m have 1: "get_nsqd_nodes ?rs1
      = Inl ''Failed to connect to http://a: timeout; Invalid JSON response from http://b''"
    by simp
  have h2: "\<exists>ur\<in>set ?rs2. producers_of (snd ur) \<noteq> []"
    by (simp add: producers_of_def)
  have "get_nsqd_nodes ?rs2
        = Inr (dedup_producers (concat (map (\<lambda>ur. producers_of (snd ur)) ?rs2)) {} [])"
    using resolution_fails_iff [of ?rs2] h2 by blast
  then have 2: "get_nsqd_nodes ?rs2 = Inr [\<lparr>broadcast_address = ''n1'', http_port = 4151\<rparr>, \<lparr>broadcast_address = ''n2'', http_port = 4151\<rparr>]"
    by (simp add: producers_of_def Let_def)
  from 1 2 show ?thesis by blast
qed

section \<open>The polling loop\<close>

text \<open>
  Claim C4, as stated, fails. A cycle sees a channel at message count 100, the next cycle
  is a total resolution failure, and the third cycle sees the channel at 130: its rates
  are 15 per second and 900 per minute, computed against the mapping from before the
  failed cycle, not zero.
\<close>

theorem rates_after_failed_cycle_not_zero:
  "run 2
     [\<lparr>lookupd_responses = [(''http://l'', Producers [\<lparr>broadcast_address = ''n1'', http_port = 4151\<rparr>])],
       nsqd_responses = (\<lambda>a p. Flat
         (\<lparr>topics = [\<lparr>topic_name = ''t'', channels = [\<lparr>channel_name = ''c'', depth = 1, backend_depth = 0, in_flight_count = 2, message_count = Some 50\<rparr>]\<rparr>]\<rparr>))\<rparr>,
      \<lparr>lookupd_responses = [(''http://l'', RequestException ''timeout'')],
       nsqd_responses = (\<lambda>a p. Unreachable)\<rparr>,
      \<lparr>lookupd_responses = [(''http://l'', Producers [\<lparr>broadcast_address = ''n1'', http_port = 4151\<rparr>])],
       nsqd_responses = (\<lambda>a p. Flat
         (\<lparr>topics = [\<lparr>topic_name = ''t'', channels = [\<lparr>channel_name = ''c'', depth = 1, backend_depth = 0, in_flight_count = 2, message_count = Some 65\<rparr>]\<rparr>]\<rparr>))\<rparr>]
     initial_state
   = Inr \<lparr>inflight_history = [2, 0, 2],
          previous_channel_stats = Some [(''t/c'', \<lparr>topic = ''t'', channel = ''c'', agg_depth = 1, agg_in_flight_count = 2, agg_message_count = 130, rate_per_second = Some 15, rate_per_minute = Some 900\<rparr>)],
          error_message = None,
          shown_channels = [\<lparr>topic = ''t'', channel = ''c'', agg_depth = 1, agg_in_flight_count = 2, agg_message_count = 130, rate_per_second = Some 15, rate_per_minute = Some 900\<rparr>],
          total_in_flight = 2\<rparr>"
  by (simp add: cycle_def get_nsqd_nodes_def query_lookupd_def process_stats_def aggregate_def
      add_stats_def add_topic_def add_channel_def channel_key_def new_entry_def accumulate_def
      get_message_count_def rate_engine_def zero_rates_def rate_for_def py_truediv_def
      rank_channels_def index_channels_def update_history_def SPARKLINE_LENGTH_def
      initial_state_def Let_def)

lemma cycle_failure:
  assumes "get_nsqd_nodes (lookupd_responses inp) = Inl msg" and "0 \<le> interval"
  shows "cycle interval inp s
         = Inr \<lparr>inflight_history = update_history (inflight_history s) 0,
                previous_channel_stats = previous_channel_stats s,
                error_message = Some msg, shown_channels = [], total_in_flight = 0\<rparr>"
  using assms by (simp add: cycle_def)

lemma cycle_success:
  assumes "get_nsqd_nodes (lookupd_responses inp) = Inr nodes" and "cycle interval inp s = Inr s'"
  shows "process_stats (get_all_stats (nsqd_responses inp) nodes) (previous_channel_stats s)
           interval = Inr (shown_channels s', total_in_flight s')
         \<and> previous_channel_stats s' = Some (index_channels (shown_channels s'))"
  using assms by (auto simp: cycle_def split: sum.splits if_splits)

text \<open>
  Claim C4, amended. A cycle that is a total resolution failure leaves the previous-cycle
  mapping as it was (it shows the diagnostic, no channels, and records a total of zero),
  so the next successful cycle passes to the rate engine the mapping of the last
  successful cycle before the failure, or no mapping if there was none; a successful
  cycle replaces the mapping by the one of the channels it returns.
\<close>

theorem failed_cycle_keeps_previous:
  "(get_nsqd_nodes (lookupd_responses inp) = Inl msg \<and> 0 \<le> interval \<longrightarrow>
      cycle interval inp s
      = Inr \<lparr>inflight_history = update_history (inflight_history s) 0,
             previous_channel_stats = previous_channel_stats s,
             error_message = Some msg, shown_channels = [], total_in_flight = 0\<rparr>)
   \<and> (get_nsqd_nodes (lookupd_responses inp') = Inr nodes \<and> cycle interval inp' s0 = Inr s1 \<longrightarrow>
        process_stats (get_all_stats (nsqd_responses inp') nodes) (previous_channel_stats s0)
          interval = Inr (shown_channels s1, total_in_flight s1)
        \<and> previous_channel_stats s1 = Some (index_channels (shown_channels s1)))
   \<and> previous_channel_stats initial_state = None"
  using cycle_failure [of inp msg interval s] cycle_success [of inp' nodes interval s0 s1]
  by (simp add: initial_state_def)

theorem failed_cycle_keeps_previous_witness:
  "cycle 2
     \<lparr>lookupd_responses = [(''http://l'', RequestException ''timeout'')],
       nsqd_responses = (\<lambda>a p. Unreachable)\<rparr>
     \<lparr>inflight_history = [2],
          previous_channel_stats = Some [(''t/c'', \<lparr>topic = ''t'', channel = ''c'', agg_depth = 1, agg_in_flight_count = 2, agg_message_count = 100, rate_per_second = Some 0, rate_per_minute = Some 0\<rparr>)],
          error_message = None,
          shown_channels = [\<lparr>topic = ''t'', channel = ''c'', agg_depth = 1, agg_in_flight_count = 2, agg_message_count = 100, rate_per_second = Some 0, rate_per_minute = Some 0\<rparr>],
          total_in_flight = 2\<rparr>
   = Inr \<lparr>inflight_history = [2, 0],
          previous_channel_stats = Some [(''t/c'', \<lparr>topic = ''t'', channel = ''c'', agg_depth = 1, agg_in_flight_count = 2, agg_message_count = 100, rate_per_second = Some 0, rate_per_minute = Some 0\<rparr>)],
          error_message = Some ''Failed to connect to http://l: timeout'',
          shown_channels = [],
          total_in_flight = 0\<rparr>
   \<and> cycle 2
     \<lparr>lookupd_responses = [(''http://l'', Producers [\<lparr>broadcast_address = ''n1'', http_port = 4151\<rparr>])],
       nsqd_responses = (\<lambda>a p. Flat
         (\<lparr>topics = [\<lparr>topic_name = ''t'', channels = [\<lparr>channel_name = ''c'', depth = 1, backend_depth = 0, in_flight_count = 2, message_count = Some 65\<rparr>]\<rparr>]\<rparr>))\<rparr>
     \<lparr>inflight_history = [2, 0],
          previous_channel_stats = Some [(''t/c'', \<lparr>topic = ''t'', channel = ''c'', agg_depth = 1, agg_in_flight_count = 2, agg_message_count = 100, rate_per_second = Some 0, rate_per_minute = Some 0\<rparr>)],
          error_message = Some ''Failed to connect to http://l: timeout'',
          shown_channels = [],
          total_in_flight = 0\<rparr>
   = Inr \<lparr>inflight_history = [2, 0, 2],
          previous_channel_stats = Some [(''t/c'', \<lparr>topic = ''t'', channel = ''c'', agg_depth = 1, agg_in_flight_count = 2, agg_message_count = 130, rate_per_second = Some 15, rate_per_minute = Some 900\<rparr>)],
          error_message = None,
          shown_channels = [\<lparr>topic = ''t'', channel = ''c'', agg_depth = 1, agg_in_flight_count = 2, agg_message_count = 130, rate_per_second = Some 15, rate_per_minute = Some 900\<rparr>],
          total_in_flight = 2\<rparr>
   \<and> process_stats
     [\<lparr>topics = [\<lparr>topic_name = ''t'', channels = [\<lparr>channel_name = ''c'', depth = 1, backend_depth = 0, in_flight_count = 2, message_count = Some 65\<rparr>]\<rparr>]\<rparr>]
     (Some [(''t/c'', \<lparr>topic = ''t'', channel = ''c'', agg_depth = 1, agg_in_flight_count = 2, agg_message_count = 100, rate_per_second = Some 0, rate_per_minute = Some 0\<rparr>)]) 2
   = Inr ([\<lparr>topic = ''t'', channel = ''c'', agg_depth = 1, agg_in_flight_count = 2, agg_message_count = 130, rate_per_second = Some 15, rate_per_minute = Some 900\<rparr>], 2)"
proof -
  let ?bad = "\<lparr>lookupd_responses = [(''http://l'', RequestException ''timeout'')],
       nsqd_responses = (\<lambda>a p. Unreachable)\<rparr>"
  let ?good = "\<lparr>lookupd_responses = [(''http://l'', Producers [\<lparr>broadcast_address = ''n1'', http_port = 4151\<rparr>])],
       nsqd_responses = (\<lambda>a p. Flat
         (\<lparr>topics = [\<lparr>topic_name = ''t'', channels = [\<lparr>channel_name = ''c'', depth = 1, backend_depth = 0, in_flight_count = 2, message_count = Some 65\<rparr>]\<rparr>]\<rparr>))\<rparr>"
  let ?s1 = "\<lparr>inflight_history = [2],
          previous_channel_stats = Some [(''t/c'', \<lparr>topic = ''t'', channel = ''c'', agg_depth = 1, agg_in_flight_count = 2, agg_message_count = 100, rate_per_second = Some 0, rate_per_minute = Some 0\<rparr>)],
          error_message = None,
          shown_channels = [\<lparr>topic = ''t'', channel = ''c'', agg_depth = 1, agg_in_flight_count = 2, agg_message_count = 100, rate_per_second = Some 0, rate_per_minute = Some 0\<rparr>],
          total_in_flight = 2\<rparr>"
  let ?s2 = "\<lparr>inflight_history = [2, 0],
          previous_channel_stats = Some [(''t/c'', \<lparr>topic = ''t'', channel = ''c'', agg_depth = 1, agg_in_flight_count = 2, agg_message_count = 100, rate_per_second = Some 0, rate_per_minute = Some 0\<rparr>)],
          error_message = Some ''Failed to connect to http://l: timeout'',
          shown_channels = [],
          total_in_flight = 0\<rparr>"
  let ?s3 = "\<lparr>inflight_history = [2, 0, 2],
          previous_channel_stats = Some [(''t/c'', \<lparr>topic = ''t'', channel = ''c'', agg_depth = 1, agg_in_flight_count = 2, agg_message_count = 130, rate_per_second = Some 15, rate_per_minute = Some 900\<rparr>)],
          error_message = None,
          shown_channels = [\<lparr>topic = ''t'', channel = ''c'', agg_depth = 1, agg_in_flight_count = 2, agg_message_count = 130, rate_per_second = Some 15, rate_per_minute = Some 900\<rparr>],
          total_in_flight = 2\<rparr>"
  let ?n = "\<lparr>broadcast_address = ''n1'', http_port = 4151\<rparr>"
  have f: "get_nsqd_nodes (lookupd_responses ?bad) = Inl ''Failed to connect to http://l: timeout''
           \<and> (0::int) \<le> 2"
    by (simp add: get_nsqd_nodes_def query_lookupd_def Let_def)
  have "cycle 2 ?bad ?s1
        = Inr \<lparr>inflight_history = update_history (inflight_history ?s1) 0,
             previous_channel_stats = previous_channel_stats ?s1,
             error_message = Some ''Failed to connect to http://l: timeout'',
             shown_channels = [], total_in_flight = 0\<rparr>"
    using failed_cycle_keeps_previous
      [of ?bad "''Failed to connect to http://l: timeout''" 2 ?s1 ?good "[?n]" ?s2 ?s3] f
    by blast
  then have 1: "cycle 2 ?bad ?s1 = Inr ?s2"
    by (simp add: update_history_def SPARKLINE_LENGTH_def)
  have 2: "cycle 2 ?good ?s2 = Inr ?s3"
    by (simp add: cycle_def get_nsqd_nodes_def query_lookupd_def process_stats_def aggregate_def
      add_stats_def add_topic_def add_channel_def channel_key_def new_entry_def accumulate_def
      get_message_count_def rate_engine_def zero_rates_def rate_for_def py_truediv_def
      rank_channels_def index_channels_def update_history_def SPARKLINE_LENGTH_def
      initial_state_def Let_def)
  have g: "get_nsqd_nodes (lookupd_responses ?good) = Inr [?n]"
    by (simp add: get_nsqd_nodes_def query_lookupd_def Let_def)
  have "process_stats (get_all_stats (nsqd_responses ?good) [?n]) (previous_channel_stats ?s2) 2
        = Inr (shown_channels ?s3, total_in_flight ?s3)"
    using failed_cycle_keeps_previous
      [of ?bad "''Failed to connect to http://l: timeout''" 2 ?s1 ?good "[?n]" ?s2 ?s3] g 2
    by blast
  then have 3: "process_stats
     [\<lparr>topics = [\<lparr>topic_name = ''t'', channels = [\<lparr>channel_name = ''c'', depth = 1, backend_depth = 0, in_flight_count = 2, message_count = Some 65\<rparr>]\<rparr>]\<rparr>]
     (Some [(''t/c'', \<lparr>topic = ''t'', channel = ''c'', agg_depth = 1, agg_in_flight_count = 2, agg_message_count = 100, rate_per_second = Some 0, rate_per_minute = Some 0\<rparr>)]) 2
   = Inr ([\<lparr>topic = ''t'', channel = ''c'', agg_depth = 1, agg_in_flight_count = 2, agg_message_count = 130, rate_per_second = Some 15, rate_per_minute = Some 900\<rparr>], 2)"
    by simp
  from 1 2 3 show ?thesis by blast
qed

section \<open>The order of the broker documents\<close>

lemma mset_contributions:
  assumes "mset docs = mset docs'"
  shows "mset (contributions docs) = mset (contributions docs')"
proof -
  let ?f = "\<lambda>d. concat (map (\<lambda>t. map (\<lambda>ch. (topic_name t, ch)) (channels t)) (topics d))"
  have "mset (contributions ds) = (\<Sum>d\<in>#mset ds. mset (?f d))" for ds
    by (induction ds) (simp_all add: contributions_def)
  then show ?thesis
    using assms by simp
qed

lemma mset_hosted:
  assumes "mset docs = mset docs'"
  shows "mset (hosted k docs) = mset (hosted k docs')"
  using mset_contributions [OF assms] by (simp add: hosted_def)

lemma sum_list_hosted:
  assumes "mset docs = mset docs'"
  shows "(\<Sum>ch\<leftarrow>hosted k docs. g ch) = (\<Sum>ch\<leftarrow>hosted k docs'. (g ch :: int))"
proof -
  have "sum_list (map g xs) = sum_mset (image_mset g (mset xs))" for xs :: "channel_doc list"
    by (induction xs) simp_all
  then show ?thesis
    using mset_hosted [OF assms, of k] by simp
qed

lemma aggregate_permutation:
  assumes p: "mset docs = mset docs'" and e: "map_of (fst (aggregate docs)) k = Some e"
  shows "\<exists>e'. map_of (fst (aggregate docs')) k = Some e'
           \<and> agg_depth e' = agg_depth e \<and> agg_in_flight_count e' = agg_in_flight_count e"
proof -
  from e obtain tc rest
    where f: "filter (\<lambda>tc. contribution_key tc = k) (contributions docs) = tc # rest"
      and a: "e = accumulate_all (new_entry (fst tc) (snd tc)) (hosted k docs)"
    by (auto simp: aggregate_lookup split: list.splits)
  have "mset (filter (\<lambda>tc. contribution_key tc = k) (contributions docs'))
        = mset (filter (\<lambda>tc. contribution_key tc = k) (contributions docs))"
    using mset_contributions [OF p] by simp
  with f have "mset (filter (\<lambda>tc. contribution_key tc = k) (contributions docs')) \<noteq> {#}"
    by simp
  then have "filter (\<lambda>tc. contribution_key tc = k) (contributions docs') \<noteq> []"
    by (simp only: mset_zero_iff not_False_eq_True)
  then obtain tc' rest'
    where f': "filter (\<lambda>tc. contribution_key tc = k) (contributions docs') = tc' # rest'"
    by (cases "filter (\<lambda>tc. contribution_key tc = k) (contributions docs')") auto
  let ?e' = "accumulate_all (new_entry (fst tc') (snd tc')) (hosted k docs')"
  have "map_of (fst (aggregate docs')) k = Some ?e'"
    by (simp add: aggregate_lookup f')
  moreover have "agg_depth ?e' = agg_depth e"
    by (simp add: a accumulate_all_fields new_entry_def sum_list_hosted [OF p])
  moreover have "agg_in_flight_count ?e' = agg_in_flight_count e"
    by (simp add: a accumulate_all_fields new_entry_def sum_list_hosted [OF p])
  ultimately show ?thesis by blast
qed

lemma aggregate_total_permutation:
  assumes "mset docs = mset docs'"
  shows "snd (aggregate docs) = snd (aggregate docs')"
proof -
  have "sum_list (map g xs) = sum_mset (image_mset g (mset xs))"
    for xs :: "(string \<times> channel_doc) list" and g :: "string \<times> channel_doc \<Rightarrow> int"
    by (induction xs) simp_all
  then show ?thesis
    using mset_contributions [OF assms] by (simp add: aggregate_total)
qed

end
